theory Spec2Isabelle
  imports Complex_Main
begin

section \<open>Python strings\<close>

text \<open>
  A Python \<open>str\<close> is a sequence of code points. The model is \<^typ>\<open>string\<close>, with each
  \<^typ>\<open>char\<close> read as the code point of the same number, so it covers the strings whose
  code points are below 256. The library operations the program calls are written out below
  for that range.
\<close>

text \<open>\<open>s.split(sep)\<close> for a one-character separator: never an empty list.\<close>

fun str_split :: "char \<Rightarrow> string \<Rightarrow> string list" where
  "str_split c [] = [[]]"
| "str_split c (x # xs) =
     (if x = c then [] # str_split c xs
      else (case str_split c xs of
              piece # pieces \<Rightarrow> (x # piece) # pieces
            | [] \<Rightarrow> [[x]]))"

text \<open>\<open>sep.join(parts)\<close>.\<close>

fun str_join :: "string \<Rightarrow> string list \<Rightarrow> string" where
  "str_join sep [] = []"
| "str_join sep [x] = x"
| "str_join sep (x # y # ys) = x @ sep @ str_join sep (y # ys)"

text \<open>\<open>s.startswith(p)\<close> and \<open>p in s\<close>.\<close>

fun startswith :: "string \<Rightarrow> string \<Rightarrow> bool" where
  "startswith s [] = True"
| "startswith [] (p # ps) = False"
| "startswith (x # xs) (p # ps) = (x = p \<and> startswith xs ps)"

fun str_contains :: "string \<Rightarrow> string \<Rightarrow> bool" where
  "str_contains p [] = (p = [])"
| "str_contains p (x # xs) = (startswith (x # xs) p \<or> str_contains p xs)"

text \<open>
  \<open>str.isspace\<close> on one code point below 256: tab, line feed, vertical tab, form feed,
  carriage return, the four separators 28 to 31, space, NEL (133) and the no-break
  space (160). The regular-expression class \<open>\s\<close> of a \<open>str\<close> pattern is the same set.
\<close>

definition isspace :: "char \<Rightarrow> bool" where
  "isspace c = (of_char c \<in> {9, 10, 11, 12, 13, 28, 29, 30, 31, 32, 133, 160 :: nat})"

text \<open>\<open>s.strip()\<close>.\<close>

definition str_strip :: "string \<Rightarrow> string" where
  "str_strip s = rev (dropWhile isspace (rev (dropWhile isspace s)))"

definition newline :: char where
  "newline = CHR 0x0A"

section \<open>The run, job and step records\<close>

text \<open>
  The program's \<open>models\<close> module declares the classes; the fields below are the ones the
  constructor calls and attribute reads of the client, the parser and the analyzer name.
  A field the provider may leave out (\<open>conclusion\<close>) or that is set later
  (\<open>log_content\<close>) is an option, \<open>None\<close> being Python's \<open>None\<close>.
\<close>

record StepRun =
  step_name :: string
  step_status :: string
  step_conclusion :: "string option"
  step_number :: int
  log_content :: "string option"

record JobRun =
  job_id :: int
  job_name :: string
  job_status :: string
  job_conclusion :: "string option"
  steps :: "StepRun list"

datatype py_error =
    IndexError | AttributeError | TypeError | ValueError | OverflowError
  | JSONDecodeError | KeyError | OtherError string

section \<open>Attaching a job's log to its steps (\<open>GitHubClient._attach_logs_to_steps\<close>)\<close>

definition is_marker :: "string \<Rightarrow> bool" where
  "is_marker line = str_contains ''##[group]'' line"

text \<open>\<open>job.steps[i].log_content = text\<close>; an index out of range raises.\<close>

definition set_log_content :: "StepRun list \<Rightarrow> nat \<Rightarrow> string \<Rightarrow> py_error + StepRun list" where
  "set_log_content ss i text =
     (if i < length ss then Inr (ss[i := (ss ! i)\<lparr>log_content := Some text\<rparr>])
      else Inl IndexError)"

text \<open>
  The loop over the lines, with the statement after the loop as its base case. The state is
  \<open>current_step_idx\<close>, \<open>current_log_buffer\<close> and the steps of the job.
\<close>

fun attach_loop ::
  "string list \<Rightarrow> nat \<Rightarrow> string list \<Rightarrow> StepRun list \<Rightarrow> py_error + StepRun list" where
  "attach_loop [] idx buf ss =
     (if buf \<noteq> [] \<and> 0 < idx then set_log_content ss (idx - 1) (str_join [newline] buf)
      else Inr ss)"
| "attach_loop (line # rest) idx buf ss =
     (if is_marker line \<and> idx < length ss then
        (case (if buf \<noteq> [] \<and> 0 < idx
               then set_log_content ss (idx - 1) (str_join [newline] buf)
               else Inr ss) of
           Inl e \<Rightarrow> Inl e
         | Inr ss' \<Rightarrow> attach_loop rest (idx + 1) [line] ss')
      else attach_loop rest idx (buf @ [line]) ss)"

definition attach_logs_to_steps :: "JobRun \<Rightarrow> string \<Rightarrow> py_error + JobRun" where
  "attach_logs_to_steps job logs =
     (case attach_loop (str_split newline logs) 0 [] (steps job) of
        Inl e \<Rightarrow> Inl e
      | Inr ss \<Rightarrow> Inr (job\<lparr>steps := ss\<rparr>))"

section \<open>Regular expressions as the parser uses them\<close>

text \<open>
  The patterns of the parser are sequences of literal characters and of greedy repetitions
  \<open>c+\<close> of a character class, some of them inside a named group. The matcher below is the
  backtracking search of Python's \<open>re\<close> on such sequences: a repetition first takes as many
  characters as the class allows and gives them back one at a time while the rest of the
  pattern fails, so the first success found is the match Python reports.
\<close>

datatype cls = Word | Digit | Space | Dot | PathChar

definition is_digit :: "char \<Rightarrow> bool" where
  "is_digit c = (48 \<le> (of_char c :: nat) \<and> (of_char c :: nat) \<le> 57)"

text \<open>\<open>\w\<close> of a \<open>str\<close> pattern, on the code points below 256.\<close>

definition is_word :: "char \<Rightarrow> bool" where
  "is_word c =
     (let n = (of_char c :: nat) in
        (48 \<le> n \<and> n \<le> 57) \<or> (65 \<le> n \<and> n \<le> 90) \<or> n = 95 \<or> (97 \<le> n \<and> n \<le> 122)
        \<or> n = 170 \<or> n = 178 \<or> n = 179 \<or> n = 181 \<or> n = 185 \<or> n = 186
        \<or> (188 \<le> n \<and> n \<le> 190) \<or> (192 \<le> n \<and> n \<le> 214) \<or> (216 \<le> n \<and> n \<le> 246)
        \<or> (248 \<le> n \<and> n \<le> 255))"

fun in_cls :: "cls \<Rightarrow> char \<Rightarrow> bool" where
  "in_cls Word c = is_word c"
| "in_cls Digit c = is_digit c"
| "in_cls Space c = isspace c"
| "in_cls Dot c = (c \<noteq> newline)"
| "in_cls PathChar c = (is_word c \<or> c = CHR ''/'' \<or> c = CHR ''.'' \<or> c = CHR ''-'')"

datatype item = Lit char | Many cls | Open string | Close string

definition lit :: "string \<Rightarrow> item list" where
  "lit s = map Lit s"

text \<open>\<open>(?P<g>...)\<close> around a sequence.\<close>

definition grp :: "string \<Rightarrow> item list \<Rightarrow> item list" where
  "grp g items = [Open g] @ items @ [Close g]"

text \<open>
  Under \<open>re.IGNORECASE\<close> a literal ASCII letter matches its two cases; the literals of the
  patterns are all ASCII.
\<close>

definition ascii_lower :: "char \<Rightarrow> char" where
  "ascii_lower c =
     (if 65 \<le> (of_char c :: nat) \<and> (of_char c :: nat) \<le> 90
      then char_of ((of_char c :: nat) + 32) else c)"

definition chr_eq :: "bool \<Rightarrow> char \<Rightarrow> char \<Rightarrow> bool" where
  "chr_eq ic c x = (if ic then ascii_lower c = ascii_lower x else c = x)"

text \<open>Try \<open>f k\<close> for \<open>k\<close> from \<open>n\<close> down to 1 and keep the first success.\<close>

fun try_down :: "(nat \<Rightarrow> 'a option) \<Rightarrow> nat \<Rightarrow> 'a option" where
  "try_down f 0 = None"
| "try_down f (Suc k) = (case f (Suc k) of Some r \<Rightarrow> Some r | None \<Rightarrow> try_down f k)"

text \<open>The span of a group is closed at the current position.\<close>

definition close_span :: "string \<Rightarrow> nat \<Rightarrow> (string \<times> nat \<times> nat) list \<Rightarrow> (string \<times> nat \<times> nat) list" where
  "close_span g pos sp = map (\<lambda>(h, a, b). if h = g then (h, a, pos) else (h, a, b)) sp"

text \<open>
  Matching at the start of the input \<open>s\<close>, \<open>pos\<close> characters into the match: the result is
  the position where the match ends and the span of each named group.
\<close>

fun match_items ::
  "bool \<Rightarrow> item list \<Rightarrow> string \<Rightarrow> nat \<Rightarrow> (string \<times> nat \<times> nat) list
     \<Rightarrow> (nat \<times> (string \<times> nat \<times> nat) list) option" where
  "match_items ic [] s pos sp = Some (pos, sp)"
| "match_items ic (Lit c # r) s pos sp =
     (case s of
        [] \<Rightarrow> None
      | x # xs \<Rightarrow> if chr_eq ic c x then match_items ic r xs (Suc pos) sp else None)"
| "match_items ic (Many k # r) s pos sp =
     try_down (\<lambda>j. match_items ic r (drop j s) (pos + j) sp)
       (length (takeWhile (in_cls k) s))"
| "match_items ic (Open g # r) s pos sp = match_items ic r s pos ((g, pos, pos) # sp)"
| "match_items ic (Close g # r) s pos sp = match_items ic r s pos (close_span g pos sp)"

text \<open>The slice \<open>xs[lo:hi]\<close> for \<open>0 \<le> lo\<close> and \<open>0 \<le> hi\<close>.\<close>

definition py_slice :: "'a list \<Rightarrow> nat \<Rightarrow> nat \<Rightarrow> 'a list" where
  "py_slice xs lo hi = take (hi - lo) (drop lo xs)"

record re_match =
  group0 :: string
  groups :: "(string \<times> string) list"

text \<open>\<open>re.match(pattern, s)\<close> and \<open>re.search(pattern, s, flags)\<close>.\<close>

definition re_match :: "bool \<Rightarrow> item list \<Rightarrow> string \<Rightarrow> re_match option" where
  "re_match ic p s =
     map_option
       (\<lambda>(e, sp). \<lparr>group0 = take e s, groups = map (\<lambda>(g, a, b). (g, py_slice s a b)) sp\<rparr>)
       (match_items ic p s 0 [])"

fun re_search :: "bool \<Rightarrow> item list \<Rightarrow> string \<Rightarrow> re_match option" where
  "re_search ic p [] = re_match ic p []"
| "re_search ic p (x # xs) =
     (case re_match ic p (x # xs) of
        Some m \<Rightarrow> Some m
      | None \<Rightarrow> re_search ic p xs)"

text \<open>\<open>m.group(name)\<close> for a group that took part in the match.\<close>

definition group :: "re_match \<Rightarrow> string \<Rightarrow> string" where
  "group m g = (case map_of (groups m) g of Some t \<Rightarrow> t | None \<Rightarrow> [])"

text \<open>
  \<open>int(s)\<close> on a string of decimal digits. The interpreter's configurable limit on the
  number of digits of such a conversion is not part of the model.
\<close>

definition int_of_digits :: "string \<Rightarrow> int" where
  "int_of_digits s = foldl (\<lambda>a c. 10 * a + (int (of_char c) - 48)) 0 s"

section \<open>The log parser (\<open>LogParser\<close>)\<close>

definition dquote :: char where
  "dquote = CHR 0x22"

definition ERROR_PATTERNS :: "(item list \<times> string) list" where
  "ERROR_PATTERNS =
     [ (grp ''type'' ([Many Word] @ lit ''Error'') @ lit '': '' @ grp ''message'' [Many Dot],
        ''python_error''),
       (lit ''FAILED '' @ [Many Dot] @ lit ''::'' @ grp ''test'' [Many Word], ''test_failure''),
       (lit ''error: '' @ grp ''message'' [Many Dot], ''build_error''),
       (lit ''npm ERR! '' @ grp ''message'' [Many Dot], ''npm_error''),
       (lit ''TS'' @ [Many Digit] @ lit '': '' @ grp ''message'' [Many Dot], ''typescript_error''),
       (lit ''Error: '' @ grp ''message'' [Many Dot], ''generic_error'') ]"

text \<open>The patterns are used with \<open>re.match\<close>, which matches at the start as \<open>^\<close> asks.\<close>

definition STACK_TRACE_PATTERNS :: "item list list" where
  "STACK_TRACE_PATTERNS =
     [ [Many Space] @ lit ''File '' @ [Lit dquote] @ grp ''file'' [Many Dot] @ [Lit dquote]
         @ lit '', line '' @ grp ''line'' [Many Digit],
       [Many Space] @ lit ''at '' @ [Many Dot] @ lit '' ('' @ grp ''file'' [Many Dot]
         @ lit '':'' @ grp ''line'' [Many Digit],
       [Many Space] @ grp ''file'' [Many PathChar] @ lit '':'' @ grp ''line'' [Many Digit] ]"

record ErrorContext =
  error_message :: string
  error_type :: string
  line_number :: "int option"
  file_path :: "string option"
  stack_trace :: "string list"
  surrounding_context :: "string list"

text \<open>The inner loop over \<open>STACK_TRACE_PATTERNS\<close>: the first pattern that matches.\<close>

fun stack_match :: "item list list \<Rightarrow> string \<Rightarrow> re_match option" where
  "stack_match [] line = None"
| "stack_match (p # ps) line =
     (case re_match False p line of
        Some m \<Rightarrow> Some m
      | None \<Rightarrow> stack_match ps line)"

text \<open>\<open>any(re.search(p[0], line, re.IGNORECASE) for p in self.ERROR_PATTERNS)\<close>.\<close>

definition is_error_line :: "string \<Rightarrow> bool" where
  "is_error_line line = list_ex (\<lambda>p. re_search True (fst p) line \<noteq> None) ERROR_PATTERNS"

text \<open>Python's truth value of an optional string: \<open>None\<close> and the empty string are false.\<close>

definition truthy :: "string option \<Rightarrow> bool" where
  "truthy v = (case v of None \<Rightarrow> False | Some s \<Rightarrow> s \<noteq> [])"

text \<open>
  The look-ahead loop, on the lines of its range; the state is \<open>file_path\<close>,
  \<open>line_number\<close> and \<open>stack_trace\<close>. A line is first tried as a stack frame and then
  tested for the \<open>break\<close>.
\<close>

fun lookahead ::
  "string list \<Rightarrow> string option \<times> int option \<times> string list
     \<Rightarrow> string option \<times> int option \<times> string list" where
  "lookahead [] st = st"
| "lookahead (line # rest) (fp, lno, trace) =
     (let st' =
        (case stack_match STACK_TRACE_PATTERNS line of
           Some m \<Rightarrow>
             (if \<not> truthy fp
              then (Some (group m ''file''), Some (int_of_digits (group m ''line'')),
                    trace @ [str_strip line])
              else (fp, lno, trace @ [str_strip line]))
         | None \<Rightarrow> (fp, lno, trace))
      in if str_strip line = [] \<or> is_error_line line then st' else lookahead rest st')"

text \<open>The lines at the indices \<open>range(lo, hi)\<close>.\<close>

definition lines_in_range :: "string list \<Rightarrow> nat \<Rightarrow> nat \<Rightarrow> string list" where
  "lines_in_range lines lo hi = map (\<lambda>i. lines ! i) [lo..<hi]"

definition extract_error_context ::
  "string list \<Rightarrow> nat \<Rightarrow> re_match \<Rightarrow> string \<Rightarrow> ErrorContext" where
  "extract_error_context lines error_line_idx m etype =
     (let (fp, lno, trace) =
            lookahead
              (lines_in_range lines (error_line_idx + 1)
                 (min (error_line_idx + 20) (length lines)))
              (None, None, []);
          context_start = nat (max 0 (int error_line_idx - 5));
          context_end = min (length lines) (error_line_idx + 10);
          surrounding = py_slice lines context_start context_end
      in \<lparr>error_message = group0 m,
          error_type = etype,
          line_number = lno,
          file_path = fp,
          stack_trace = trace,
          surrounding_context = filter (\<lambda>l. l \<noteq> []) (map str_strip surrounding)\<rparr>)"

text \<open>
  The inner loop over \<open>ERROR_PATTERNS\<close> for the line at index \<open>i\<close>: the first pattern
  found in the line makes the record and ends the loop.
\<close>

fun try_patterns ::
  "(item list \<times> string) list \<Rightarrow> string list \<Rightarrow> nat \<Rightarrow> string \<Rightarrow> ErrorContext option" where
  "try_patterns [] lines i line = None"
| "try_patterns ((p, etype) # ps) lines i line =
     (case re_search True p line of
        Some m \<Rightarrow> Some (extract_error_context lines i m etype)
      | None \<Rightarrow> try_patterns ps lines i line)"

text \<open>The outer loop over \<open>enumerate(lines)\<close>, appending to \<open>errors\<close>.\<close>

fun parse_loop ::
  "string list \<Rightarrow> (nat \<times> string) list \<Rightarrow> ErrorContext list \<Rightarrow> ErrorContext list" where
  "parse_loop lines [] errors = errors"
| "parse_loop lines ((i, line) # rest) errors =
     parse_loop lines rest
       (case try_patterns ERROR_PATTERNS lines i line of
          Some e \<Rightarrow> errors @ [e]
        | None \<Rightarrow> errors)"

definition parse_step_logs :: "StepRun \<Rightarrow> ErrorContext list" where
  "parse_step_logs step =
     (case log_content step of
        None \<Rightarrow> []
      | Some text \<Rightarrow>
          if text = [] \<or> step_conclusion step \<noteq> Some ''failure'' then []
          else
            (let lines = str_split newline text
             in parse_loop lines (enumerate 0 lines) []))"

section \<open>The analyzer (\<open>LLMAnalyzer\<close>)\<close>

record WorkflowRun =
  run_id :: int
  run_name :: string
  run_conclusion :: "string option"
  head_branch :: string
  head_sha :: string
  repository :: string
  jobs :: "JobRun list"

text \<open>\<open>str(n)\<close> for an integer, as an f-string formats it.\<close>

definition digit_char :: "nat \<Rightarrow> char" where
  "digit_char d = char_of (48 + d)"

fun str_of_nat :: "nat \<Rightarrow> string" where
  "str_of_nat n = (if n < 10 then [digit_char n] else str_of_nat (n div 10) @ [digit_char (n mod 10)])"

definition str_of_int :: "int \<Rightarrow> string" where
  "str_of_int i = (if i < 0 then CHR ''-'' # str_of_nat (nat (- i)) else str_of_nat (nat i))"

text \<open>An optional string inside an f-string: \<open>None\<close> prints as its name.\<close>

definition fmt_opt :: "string option \<Rightarrow> string" where
  "fmt_opt v = (case v of None \<Rightarrow> ''None'' | Some s \<Rightarrow> s)"

subsection \<open>\<open>_build_analysis_context\<close>\<close>

text \<open>The lines one error adds to \<open>context_parts\<close>, \<open>i\<close> being its number.\<close>

definition error_part :: "nat \<Rightarrow> ErrorContext \<Rightarrow> string list" where
  "error_part i error =
     [''### Error '' @ str_of_nat i,
      ''Type: '' @ error_type error,
      ''Message: '' @ error_message error]
     @ (case file_path error of
          None \<Rightarrow> []
        | Some f \<Rightarrow>
            if f = [] then []
            else [''Location: '' @ f @
                  (case line_number error of
                     None \<Rightarrow> []
                   | Some n \<Rightarrow> if n = 0 then [] else '':'' @ str_of_int n)])
     @ (if stack_trace error = [] then []
        else ''Stack trace:'' # map (\<lambda>line. ''  '' @ line) (take 10 (stack_trace error)))
     @ [[]]"

text \<open>The loop over \<open>enumerate(errors[:5], 1)\<close>.\<close>

fun error_details :: "(nat \<times> ErrorContext) list \<Rightarrow> string list \<Rightarrow> string list" where
  "error_details [] context_parts = context_parts"
| "error_details ((i, error) # rest) context_parts =
     error_details rest (context_parts @ error_part i error)"

definition context_head :: "WorkflowRun \<Rightarrow> string list \<Rightarrow> string list \<Rightarrow> string list" where
  "context_head workflow_run fjobs fsteps =
     [''# CI Failure Analysis Request'',
      [],
      ''## Workflow Information'',
      ''- Repository: '' @ repository workflow_run,
      ''- Workflow: '' @ run_name workflow_run,
      ''- Branch: '' @ head_branch workflow_run,
      ''- Commit: '' @ take 8 (head_sha workflow_run),
      ''- Status: '' @ fmt_opt (run_conclusion workflow_run),
      [],
      ''## Failed Jobs'']
     @ map (\<lambda>job. ''- '' @ job) fjobs
     @ [[], ''## Failed Steps'']
     @ map (\<lambda>step. ''- '' @ step) fsteps
     @ [[], ''## Error Details'']"

definition build_analysis_context ::
  "WorkflowRun \<Rightarrow> string list \<Rightarrow> string list \<Rightarrow> ErrorContext list \<Rightarrow> string" where
  "build_analysis_context workflow_run fjobs fsteps errors =
     str_join [newline]
       (error_details (enumerate 1 (take 5 errors))
          (context_head workflow_run fjobs fsteps))"

subsection \<open>\<open>_parse_llm_response\<close>\<close>

text \<open>
  The values \<open>json.loads\<close> returns. A float is the real number it denotes: rounding, the
  infinities and NaN are outside the model. A \<open>dict\<close> is the association
  list of its items, a key being looked up with \<^const>\<open>map_of\<close>.
\<close>

datatype json =
    JNull | JBool bool | JInt int | JFloat real | JString string
  | JArray "json list" | JObject "(string \<times> json) list"

text \<open>
  The two library functions whose work is on the text of the reply are parameters of the
  model: \<open>json.loads\<close>, which returns a value or raises, and the conversion \<open>float(s)\<close>
  of a string, which returns a number or raises \<open>ValueError\<close>.
\<close>

record pylib =
  json_loads :: "string \<Rightarrow> py_error + json"
  float_of_str :: "string \<Rightarrow> real option"

text \<open>\<open>d.get(key, default)\<close>.\<close>

definition dict_get :: "(string \<times> json) list \<Rightarrow> string \<Rightarrow> json \<Rightarrow> json" where
  "dict_get d k dflt = (case map_of d k of Some v \<Rightarrow> v | None \<Rightarrow> dflt)"

text \<open>
  \<open>float(v)\<close>. An integer at or beyond \<open>2^1024 - 2^970\<close> in absolute value has no
  float.
\<close>

definition py_float :: "pylib \<Rightarrow> json \<Rightarrow> py_error + real" where
  "py_float lib v =
     (case v of
        JNull \<Rightarrow> Inl TypeError
      | JBool b \<Rightarrow> Inr (if b then 1 else 0)
      | JInt n \<Rightarrow> if 2 ^ 1024 - 2 ^ 970 \<le> \<bar>n\<bar> then Inl OverflowError else Inr (of_int n)
      | JFloat x \<Rightarrow> Inr x
      | JString t \<Rightarrow> (case float_of_str lib t of None \<Rightarrow> Inl ValueError | Some x \<Rightarrow> Inr x)
      | JArray xs \<Rightarrow> Inl TypeError
      | JObject d \<Rightarrow> Inl TypeError)"

record FailureAnalysis =
  workflow_run_id :: int
  summary :: json
  failed_jobs :: "string list"
  failed_steps :: "string list"
  error_contexts :: "ErrorContext list"
  likely_cause :: json
  suggested_actions :: json
  confidence :: real

text \<open>
  The text handed to \<open>json.loads\<close>: stripped, and without the first and the last line
  when it starts with a code fence.
\<close>

definition fence :: string where
  "fence = [CHR 0x60, CHR 0x60, CHR 0x60]"

definition clean_response :: "string \<Rightarrow> string" where
  "clean_response llm_response =
     (let cleaned = str_strip llm_response
      in if startswith cleaned fence
         then str_join [newline] (butlast (tl (str_split newline cleaned)))
         else cleaned)"

text \<open>The body of the \<open>try\<close>. A value that is not a \<open>dict\<close> has no \<open>get\<close>.\<close>

definition parse_body ::
  "pylib \<Rightarrow> int \<Rightarrow> string list \<Rightarrow> string list \<Rightarrow> ErrorContext list \<Rightarrow> string
     \<Rightarrow> py_error + FailureAnalysis" where
  "parse_body lib rid fjobs fsteps errors llm_response =
     (case json_loads lib (clean_response llm_response) of
        Inl e \<Rightarrow> Inl e
      | Inr data \<Rightarrow>
          (case data of
             JObject d \<Rightarrow>
               (case py_float lib (dict_get d ''confidence'' (JFloat (1 / 2))) of
                  Inl e \<Rightarrow> Inl e
                | Inr c \<Rightarrow>
                    Inr \<lparr>workflow_run_id = rid,
                         summary = dict_get d ''summary'' (JString ''Analysis unavailable''),
                         failed_jobs = fjobs,
                         failed_steps = fsteps,
                         error_contexts = errors,
                         likely_cause = dict_get d ''likely_cause'' (JString ''Unknown''),
                         suggested_actions = dict_get d ''suggested_actions'' (JArray []),
                         confidence = c\<rparr>)
           | _ \<Rightarrow> Inl AttributeError))"

definition fallback ::
  "int \<Rightarrow> string list \<Rightarrow> string list \<Rightarrow> ErrorContext list \<Rightarrow> string \<Rightarrow> FailureAnalysis" where
  "fallback rid fjobs fsteps errors llm_response =
     \<lparr>workflow_run_id = rid,
      summary = JString ''Failed to parse LLM response'',
      failed_jobs = fjobs,
      failed_steps = fsteps,
      error_contexts = errors,
      likely_cause = JString (take 500 llm_response),
      suggested_actions = JArray [JString ''Review logs manually''],
      confidence = 0\<rparr>"

text \<open>\<open>except (json.JSONDecodeError, KeyError)\<close>: any other exception goes to the caller.\<close>

definition parse_llm_response ::
  "pylib \<Rightarrow> int \<Rightarrow> string list \<Rightarrow> string list \<Rightarrow> ErrorContext list \<Rightarrow> string
     \<Rightarrow> py_error + FailureAnalysis" where
  "parse_llm_response lib rid fjobs fsteps errors llm_response =
     (case parse_body lib rid fjobs fsteps errors llm_response of
        Inr r \<Rightarrow> Inr r
      | Inl e \<Rightarrow>
          if e = JSONDecodeError \<or> e = KeyError
          then Inr (fallback rid fjobs fsteps errors llm_response)
          else Inl e)"

subsection \<open>\<open>analyze_workflow_failure\<close>\<close>

text \<open>
  The loop over the steps of a failed job; the state is \<open>failed_steps\<close> and
  \<open>all_errors\<close>.
\<close>

fun collect_steps ::
  "string \<Rightarrow> StepRun list \<Rightarrow> string list \<times> ErrorContext list
     \<Rightarrow> string list \<times> ErrorContext list" where
  "collect_steps jname [] st = st"
| "collect_steps jname (step # rest) (fsteps, all_errors) =
     (if step_conclusion step = Some ''failure''
      then collect_steps jname rest
             (fsteps @ [jname @ ''/'' @ step_name step], all_errors @ parse_step_logs step)
      else collect_steps jname rest (fsteps, all_errors))"

text \<open>The loop over the jobs; the state adds \<open>failed_jobs\<close>.\<close>

fun collect_jobs ::
  "JobRun list \<Rightarrow> string list \<times> string list \<times> ErrorContext list
     \<Rightarrow> string list \<times> string list \<times> ErrorContext list" where
  "collect_jobs [] st = st"
| "collect_jobs (job # rest) (fjobs, fsteps, all_errors) =
     (if job_conclusion job = Some ''failure''
      then collect_jobs rest
             (case collect_steps (job_name job) (steps job) (fsteps, all_errors) of
                (fsteps', all_errors') \<Rightarrow> (fjobs @ [job_name job], fsteps', all_errors'))
      else collect_jobs rest (fjobs, fsteps, all_errors))"

text \<open>
  The call of the reasoning service is the parameter \<open>query_llm\<close>: from the context to the
  reply, or an exception.
\<close>

definition analyze_workflow_failure ::
  "pylib \<Rightarrow> (string \<Rightarrow> py_error + string) \<Rightarrow> WorkflowRun \<Rightarrow> py_error + FailureAnalysis" where
  "analyze_workflow_failure lib query_llm workflow_run =
     (case collect_jobs (jobs workflow_run) ([], [], []) of
        (fjobs, fsteps, all_errors) \<Rightarrow>
          (case query_llm (build_analysis_context workflow_run fjobs fsteps all_errors) of
             Inl e \<Rightarrow> Inl e
           | Inr llm_response \<Rightarrow>
               parse_llm_response lib (run_id workflow_run) fjobs fsteps all_errors llm_response))"

section \<open>Notions used in the statements\<close>

text \<open>
  The segments the loop of \<open>attach_loop\<close> closes, as lists of lines: with \<open>n\<close> steps still
  free and the buffer \<open>buf\<close>, the first segment is the buffer being filled.
\<close>

fun segs :: "nat \<Rightarrow> string list \<Rightarrow> string list \<Rightarrow> string list list" where
  "segs n buf [] = [buf]"
| "segs n buf (l # ls) =
     (if is_marker l \<and> 0 < n then buf # segs (n - 1) [l] ls else segs n (buf @ [l]) ls)"

text \<open>Segment \<open>j\<close> of \<open>cs\<close> becomes the log content of step \<open>i + j\<close>.\<close>

fun assign :: "nat \<Rightarrow> string list list \<Rightarrow> StepRun list \<Rightarrow> StepRun list" where
  "assign i [] ss = ss"
| "assign i (c # cs) ss =
     assign (Suc i) cs (ss[i := (ss ! i)\<lparr>log_content := Some (str_join [newline] c)\<rparr>])"

text \<open>The lines of a job log and the number of its boundary markers.\<close>

definition log_lines :: "string \<Rightarrow> string list" where
  "log_lines logs = str_split newline logs"

definition marker_count :: "string \<Rightarrow> nat" where
  "marker_count logs = length (filter is_marker (log_lines logs))"

subsection \<open>Sample inputs\<close>

definition example_step :: "string \<Rightarrow> StepRun" where
  "example_step n = \<lparr>step_name = n, step_status = ''completed'',
     step_conclusion = Some ''failure'', step_number = 1, log_content = None\<rparr>"

definition example_job :: JobRun where
  "example_job = \<lparr>job_id = 7, job_name = ''ci'', job_status = ''completed'',
     job_conclusion = Some ''failure'', steps = [example_step ''build'', example_step ''test'']\<rparr>"

definition example_log :: string where
  "example_log = ''pre\<newline>##[group]a\<newline>l1\<newline>##[group]b\<newline>l2\<newline>##[group]c\<newline>l3''"

subsection \<open>The extractor\<close>

text \<open>The test that ends the look-ahead: a blank line or a line with an error signature.\<close>

definition stops :: "string \<Rightarrow> bool" where
  "stops line = (str_strip line = [] \<or> is_error_line line)"

text \<open>
  The lines of a look-ahead range that the loop visits: those before the first line that
  ends it, and that line.
\<close>

definition scanned :: "string list \<Rightarrow> string list" where
  "scanned w = takeWhile (\<lambda>l. \<not> stops l) w @ take 1 (dropWhile (\<lambda>l. \<not> stops l) w)"

text \<open>A line that one of \<open>STACK_TRACE_PATTERNS\<close> matches, and the location it names.\<close>

definition is_frame :: "string \<Rightarrow> bool" where
  "is_frame line = (stack_match STACK_TRACE_PATTERNS line \<noteq> None)"

definition frame_location :: "string \<Rightarrow> (string \<times> int) option" where
  "frame_location line =
     map_option (\<lambda>m. (group m ''file'', int_of_digits (group m ''line'')))
       (stack_match STACK_TRACE_PATTERNS line)"

text \<open>The lines of the look-ahead range of a match at index \<open>i\<close>.\<close>

definition lookahead_window :: "string list \<Rightarrow> nat \<Rightarrow> string list" where
  "lookahead_window lines i = lines_in_range lines (i + 1) (min (i + 20) (length lines))"

text \<open>The group names an item opens or closes.\<close>

fun item_names :: "item \<Rightarrow> string set" where
  "item_names (Open g) = {g}"
| "item_names (Close g) = {g}"
| "item_names _ = {}"

text \<open>
  The first signature of \<open>ERROR_PATTERNS\<close>, in the order of the table, found in a line, and
  the records the line at index \<open>i\<close> gives.
\<close>

definition first_signature :: "string \<Rightarrow> (item list \<times> string) option" where
  "first_signature line = List.find (\<lambda>pt. re_search True (fst pt) line \<noteq> None) ERROR_PATTERNS"

definition line_records :: "string list \<Rightarrow> nat \<Rightarrow> string \<Rightarrow> ErrorContext list" where
  "line_records lines i line =
     (case first_signature line of
        None \<Rightarrow> []
      | Some (p, ty) \<Rightarrow> [extract_error_context lines i (the (re_search True p line)) ty])"

subsection \<open>Sample buffers\<close>

definition window_log :: "string list" where
  "window_log = ''KeyError: k'' # replicate 19 ''ok'' @ ['' a.py:7'']"

definition sample_match :: re_match where
  "sample_match = \<lparr>group0 = ''KeyError: k'',
     groups = [(''message'', ''k''), (''type'', ''KeyError'')]\<rparr>"

definition context_log :: "string list" where
  "context_log = [''l0'', ''l1'', ''l2'', ''l3'', ''l4'', ''KeyError: k'', ''l6'', ''l7'',
     ''l8'', ''l9'', ''l10'', ''l11'', ''l12'', ''l13'', ''l14'', ''l15'', ''l16'']"

definition frames_log :: "string list" where
  "frames_log = [''KeyError: k'', '' a.py:12'', '' b.py:7'', [], '' c.py:5'']"

definition types_log :: string where
  "types_log = ''KeyError: k\<newline>Error: y''"

definition types_step :: StepRun where
  "types_step = \<lparr>step_name = ''test'', step_status = ''completed'',
     step_conclusion = Some ''failure'', step_number = 2, log_content = Some types_log\<rparr>"
subsection \<open>The analyzer\<close>

text \<open>
  The failed steps of the failed jobs of a run, in the order of the run, and the error
  records extracted from them.
\<close>

definition failed_step_list :: "WorkflowRun \<Rightarrow> StepRun list" where
  "failed_step_list workflow_run =
     concat (map (\<lambda>job. filter (\<lambda>step. step_conclusion step = Some ''failure'') (steps job))
               (filter (\<lambda>job. job_conclusion job = Some ''failure'') (jobs workflow_run)))"

definition extracted_errors :: "WorkflowRun \<Rightarrow> ErrorContext list" where
  "extracted_errors workflow_run = concat (map parse_step_logs (failed_step_list workflow_run))"

subsection \<open>Sample replies\<close>

text \<open>The replies \<open>{"confidence": 5}\<close> and \<open>{"confidence": 0.9}\<close>.\<close>

definition reply_five :: string where
  "reply_five = ''{'' @ [dquote] @ ''confidence'' @ [dquote] @ '': 5}''"

definition reply_nine_tenths :: string where
  "reply_nine_tenths = ''{'' @ [dquote] @ ''confidence'' @ [dquote] @ '': 0.9}''"

text \<open>
  A stand-in for \<open>json.loads\<close> that returns what \<open>json.loads\<close> returns on the sample
  replies \<open>[]\<close>, \<open>{"confidence": 5}\<close> and \<open>{"confidence": 0.9}\<close>, and raises
  \<open>JSONDecodeError\<close> on the reply \<open>not json\<close>. It is used on these four texts only; on
  any other text it gives an error of its own.
\<close>

definition sample_loads :: "string \<Rightarrow> py_error + json" where
  "sample_loads s =
     (if s = ''[]'' then Inr (JArray [])
      else if s = reply_five then Inr (JObject [(''confidence'', JInt 5)])
      else if s = reply_nine_tenths then Inr (JObject [(''confidence'', JFloat (9 / 10))])
      else if s = ''not json'' then Inl JSONDecodeError
      else Inl (OtherError ''not a sample reply''))"

definition sample_lib :: pylib where
  "sample_lib = \<lparr>json_loads = sample_loads, float_of_str = (\<lambda>s. None)\<rparr>"

text \<open>Six error records, and a run with one failed job and one failed step.\<close>

definition sample_error :: "nat \<Rightarrow> ErrorContext" where
  "sample_error n = \<lparr>error_message = ''KeyError: k'', error_type = ''python_error'',
     line_number = Some (int n), file_path = Some ''a.py'', stack_trace = [''a.py:1''],
     surrounding_context = []\<rparr>"

definition sample_errors :: "ErrorContext list" where
  "sample_errors = map sample_error [1, 2, 3, 4, 5, 6]"

definition sample_run :: WorkflowRun where
  "sample_run = \<lparr>run_id = 1, run_name = ''ci'', run_conclusion = Some ''failure'',
     head_branch = ''main'', head_sha = ''0123456789abcdef'', repository = ''o/r'',
     jobs = [example_job\<lparr>steps := [types_step]\<rparr>]\<rparr>"

section \<open>The guard of the extractor\<close>

text \<open>
  C9. A step whose conclusion is not \<open>failure\<close>, or whose log content is absent or empty,
  gives the empty list of error records. The extractor is a total function into lists, so
  it returns and raises nothing; the guard is the first statement of \<open>parse_step_logs\<close>.
\<close>

theorem parse_step_logs_guard:
  assumes "step_conclusion step \<noteq> Some ''failure'' \<or> log_content step = None
           \<or> log_content step = Some []"
  shows "parse_step_logs step = []"
  using assms by (auto simp: parse_step_logs_def split: option.splits)

theorem parse_step_logs_guard_witness:
  "parse_step_logs \<lparr>step_name = ''build'', step_status = ''completed'',
      step_conclusion = Some ''success'', step_number = 1,
      log_content = Some ''ValueError: bad input''\<rparr> = []
   \<and> parse_step_logs \<lparr>step_name = ''test'', step_status = ''completed'',
      step_conclusion = Some ''failure'', step_number = 2, log_content = None\<rparr> = []
   \<and> parse_step_logs \<lparr>step_name = ''test'', step_status = ''completed'',
      step_conclusion = Some ''failure'', step_number = 2, log_content = Some []\<rparr> = []"
  by (simp add: parse_step_logs_guard)

section \<open>The log segmenter\<close>

lemma length_assign: "length (assign i cs ss) = length ss"
  by (induction cs arbitrary: i ss) auto

lemma assign_outside:
  "j < i \<or> i + length cs \<le> j \<Longrightarrow> assign i cs ss ! j = ss ! j"
  by (induction cs arbitrary: i ss) auto

lemma assign_inside:
  "j < length cs \<Longrightarrow> i + length cs \<le> length ss \<Longrightarrow>
   assign i cs ss ! (i + j) = (ss ! (i + j))\<lparr>log_content := Some (str_join [newline] (cs ! j))\<rparr>"
proof (induction cs arbitrary: i j ss)
  case Nil
  then show ?case by simp
next
  case (Cons c cs)
  show ?case
  proof (cases j)
    case 0
    with Cons.prems show ?thesis by (simp add: assign_outside)
  next
    case (Suc j')
    with Cons.prems Cons.IH[of j' "Suc i"] show ?thesis by simp
  qed
qed

lemma attach_loop_segs:
  "idx \<le> length ss \<Longrightarrow> (0 < idx \<longrightarrow> buf \<noteq> []) \<Longrightarrow>
   attach_loop ls idx buf ss =
     Inr (assign (idx - 1)
            (if idx = 0 then tl (segs (length ss - idx) buf ls) else segs (length ss - idx) buf ls)
            ss)"
proof (induction ls arbitrary: idx buf ss)
  case Nil
  then show ?case by (auto simp: set_log_content_def)
next
  case (Cons l ls)
  show ?case
  proof (cases "is_marker l \<and> idx < length ss")
    case True
    show ?thesis
    proof (cases "idx = 0")
      case True
      with \<open>is_marker l \<and> idx < length ss\<close> Cons.IH[of 1 ss "[l]"] show ?thesis
        by (simp add: Suc_le_eq)
    next
      case False
      let ?ss' = "ss[idx - 1 := (ss ! (idx - 1))\<lparr>log_content := Some (str_join [newline] buf)\<rparr>]"
      from False Cons.prems have sv: "set_log_content ss (idx - 1) (str_join [newline] buf) = Inr ?ss'"
        by (simp add: set_log_content_def)
      from True Cons.IH[of "idx + 1" ?ss' "[l]"]
      have "attach_loop ls (idx + 1) [l] ?ss' =
              Inr (assign idx (segs (length ss - (idx + 1)) [l] ls) ?ss')" by simp
      with True False Cons.prems sv show ?thesis by simp
    qed
  next
    case False
    with Cons.prems Cons.IH[of idx ss "buf @ [l]"] show ?thesis by auto
  qed
qed

lemma concat_segs: "concat (segs n buf ls) = buf @ ls"
  by (induction ls arbitrary: n buf) auto

lemma length_segs: "length (segs n buf ls) = Suc (min n (length (filter is_marker ls)))"
  by (induction ls arbitrary: n buf) auto

lemma hd_segs:
  "segs n buf ls \<noteq> [] \<and>
   hd (segs n buf ls) = buf @ (if 0 < n then takeWhile (\<lambda>l. \<not> is_marker l) ls else ls)"
  by (induction ls arbitrary: n buf) auto

lemma tl_segs_marker:
  "c \<in> set (tl (segs n buf ls)) \<Longrightarrow> c \<noteq> [] \<and> is_marker (hd c)"
proof (induction ls arbitrary: n buf)
  case Nil then show ?case by simp
next
  case (Cons l ls)
  show ?case
  proof (cases "is_marker l \<and> 0 < n")
    case True
    with Cons.prems have "c \<in> set (segs (n - 1) [l] ls)" by simp
    then have "c = hd (segs (n - 1) [l] ls) \<or> c \<in> set (tl (segs (n - 1) [l] ls))"
      using hd_segs[of "n - 1" "[l]" ls] by (cases "segs (n - 1) [l] ls") auto
    then show ?thesis using True Cons.IH hd_segs[of "n - 1" "[l]" ls] by auto
  next
    case False
    with Cons show ?thesis by auto
  qed
qed

lemma segs_at_marker:
  "is_marker m \<Longrightarrow> length (filter is_marker pre) < n \<Longrightarrow>
   segs n buf (pre @ m # post) ! Suc (length (filter is_marker pre)) =
     m # (if Suc (length (filter is_marker pre)) < n then takeWhile (\<lambda>l. \<not> is_marker l) post else post)"
proof (induction pre arbitrary: n buf)
  case Nil
  then show ?case using hd_segs[of "n - 1" "[m]" post]
    by (cases "segs (n - 1) [m] post") (auto simp: )
next
  case (Cons p pre)
  show ?case
  proof (cases "is_marker p")
    case True
    with Cons.prems Cons.IH[of "n - 1" "[p]"] show ?thesis by (auto simp: )
  next
    case False
    with Cons.prems Cons.IH[of n "buf @ [p]"] show ?thesis by simp
  qed
qed

lemma is_marker_nonempty: "is_marker l \<Longrightarrow> l \<noteq> []"
  by (auto simp: is_marker_def)

lemma str_join_nonempty: "c \<noteq> [] \<Longrightarrow> hd c \<noteq> [] \<Longrightarrow> str_join sep c \<noteq> []"
  by (induction sep c rule: str_join.induct) auto

lemma attach_logs_segs:
  "attach_logs_to_steps job logs =
     Inr (job\<lparr>steps := assign 0 (tl (segs (length (steps job)) [] (log_lines logs))) (steps job)\<rparr>)"
  using attach_loop_segs[of 0 "steps job" "[]" "log_lines logs"]
  by (simp add: attach_logs_to_steps_def log_lines_def)

lemma concat_tl_segs:
  "0 < n \<Longrightarrow> concat (tl (segs n [] ls)) = dropWhile (\<lambda>l. \<not> is_marker l) ls"
proof -
  assume n: "0 < n"
  let ?S = "segs n [] ls"
  have "?S \<noteq> []" using hd_segs[of n "[]" ls] by blast
  then have S: "?S = hd ?S # tl ?S" by simp
  have "concat ?S = takeWhile (\<lambda>l. \<not> is_marker l) ls @ concat (tl ?S)"
    using hd_segs[of n "[]" ls] n by (subst S) simp
  then have "takeWhile (\<lambda>l. \<not> is_marker l) ls @ concat (tl ?S)
             = takeWhile (\<lambda>l. \<not> is_marker l) ls @ dropWhile (\<lambda>l. \<not> is_marker l) ls"
    by (simp only: concat_segs append_Nil takeWhile_dropWhile_id)
  then show ?thesis by (simp only: same_append_eq)
qed

text \<open>
  C5. A log without a boundary marker leaves the job as it is: no step receives log content.
  A log with \<open>N\<close> markers gives \<open>min N (length (steps job))\<close> segments, so at most
  \<open>N\<close>; each is a non-empty list of lines with a non-empty text, segment \<open>j\<close> is the
  log content of step \<open>j\<close>, the other steps are unchanged, and the segments in step order
  put end to end are the lines of the log from the first marker on, so the order of the log
  is kept and what comes before the first marker is dropped.
\<close>

theorem attach_logs_segments:
  "(marker_count logs = 0 \<longrightarrow> attach_logs_to_steps job logs = Inr job) \<and>
   (\<exists>segments ss'.
      attach_logs_to_steps job logs = Inr (job\<lparr>steps := ss'\<rparr>) \<and>
      length segments = min (marker_count logs) (length (steps job)) \<and>
      (\<forall>c \<in> set segments. c \<noteq> [] \<and> str_join [newline] c \<noteq> []) \<and>
      (0 < length segments \<longrightarrow>
         concat segments = dropWhile (\<lambda>l. \<not> is_marker l) (log_lines logs)) \<and>
      length ss' = length (steps job) \<and>
      (\<forall>j < length segments.
         ss' ! j = (steps job ! j)\<lparr>log_content := Some (str_join [newline] (segments ! j))\<rparr>) \<and>
      (\<forall>j. length segments \<le> j \<longrightarrow> ss' ! j = steps job ! j))"
proof -
  let ?ss = "steps job"
  let ?S = "segs (length ?ss) [] (log_lines logs)"
  let ?segments = "tl ?S"
  let ?ss' = "assign 0 ?segments ?ss"
  have run: "attach_logs_to_steps job logs = Inr (job\<lparr>steps := ?ss'\<rparr>)"
    by (rule attach_logs_segs)
  have len: "length ?segments = min (marker_count logs) (length ?ss)"
    by (simp add: length_segs marker_count_def min.commute)
  have ne: "\<forall>c \<in> set ?segments. c \<noteq> [] \<and> str_join [newline] c \<noteq> []"
    using tl_segs_marker is_marker_nonempty str_join_nonempty by blast
  have cc: "0 < length ?segments \<longrightarrow>
              concat ?segments = dropWhile (\<lambda>l. \<not> is_marker l) (log_lines logs)"
    using len concat_tl_segs[of "length ?ss" "log_lines logs"] by auto
  have l': "length ?ss' = length ?ss" by (rule length_assign)
  have inside: "\<forall>j < length ?segments.
         ?ss' ! j = (?ss ! j)\<lparr>log_content := Some (str_join [newline] (?segments ! j))\<rparr>"
    using assign_inside[of _ ?segments 0 ?ss] len by simp
  have outside: "\<forall>j. length ?segments \<le> j \<longrightarrow> ?ss' ! j = ?ss ! j"
    using assign_outside[of _ 0 ?segments ?ss] by simp
  have zero: "marker_count logs = 0 \<longrightarrow> attach_logs_to_steps job logs = Inr job"
  proof
    assume "marker_count logs = 0"
    with len have "length ?segments = 0" by (simp only: min_0L)
    then have "?segments = []" by (simp only: length_0_conv)
    with run show "attach_logs_to_steps job logs = Inr job" by simp
  qed
  from run len ne cc l' inside outside have
    "\<exists>segments ss'.
      attach_logs_to_steps job logs = Inr (job\<lparr>steps := ss'\<rparr>) \<and>
      length segments = min (marker_count logs) (length (steps job)) \<and>
      (\<forall>c \<in> set segments. c \<noteq> [] \<and> str_join [newline] c \<noteq> []) \<and>
      (0 < length segments \<longrightarrow>
         concat segments = dropWhile (\<lambda>l. \<not> is_marker l) (log_lines logs)) \<and>
      length ss' = length (steps job) \<and>
      (\<forall>j < length segments.
         ss' ! j = (steps job ! j)\<lparr>log_content := Some (str_join [newline] (segments ! j))\<rparr>) \<and>
      (\<forall>j. length segments \<le> j \<longrightarrow> ss' ! j = steps job ! j)"
    by blast
  with zero show ?thesis by blast
qed

lemma split_at_nth_marker:
  "n \<le> length (filter P xs) \<Longrightarrow> 0 < n \<Longrightarrow>
   \<exists>a m b. xs = a @ m # b \<and> P m \<and> length (filter P a) = n - 1"
proof (induction xs arbitrary: n)
  case Nil
  then show ?case by simp
next
  case (Cons x xs)
  show ?case
  proof (cases "P x")
    case True
    show ?thesis
    proof (cases "n = 1")
      case True
      with \<open>P x\<close> have "x # xs = [] @ x # xs \<and> P x \<and> length (filter P []) = n - 1" by simp
      then show ?thesis by blast
    next
      case False
      with Cons.prems \<open>P x\<close> have "n - 1 \<le> length (filter P xs)" "0 < n - 1" by auto
      from Cons.IH[OF this] obtain a m b where
        "xs = a @ m # b" "P m" "length (filter P a) = n - 1 - 1" by blast
      with \<open>P x\<close> Cons.prems False
      have "x # xs = (x # a) @ m # b \<and> P m \<and> length (filter P (x # a)) = n - 1" by auto
      then show ?thesis by blast
    qed
  next
    case False
    with Cons.prems have "n \<le> length (filter P xs)" by simp
    from Cons.IH[OF this \<open>0 < n\<close>] obtain a m b where
      "xs = a @ m # b" "P m" "length (filter P a) = n - 1" by blast
    with False have "x # xs = (x # a) @ m # b \<and> P m \<and> length (filter P (x # a)) = n - 1" by simp
    then show ?thesis by blast
  qed
qed

lemma attach_logs_at_marker:
  assumes "log_lines logs = pre @ m # post" "is_marker m"
    and "length (filter is_marker pre) < length (steps job)"
  shows "\<exists>ss'. attach_logs_to_steps job logs = Inr (job\<lparr>steps := ss'\<rparr>) \<and>
     log_content (ss' ! length (filter is_marker pre)) =
       Some (str_join [newline]
         (m # (if Suc (length (filter is_marker pre)) < length (steps job)
               then takeWhile (\<lambda>l. \<not> is_marker l) post else post)))"
proof -
  let ?ss = "steps job"
  let ?j = "length (filter is_marker pre)"
  let ?S = "segs (length ?ss) [] (log_lines logs)"
  have lenS: "length (tl ?S) = min (length ?ss) (Suc ?j + length (filter is_marker post))"
    using assms by (simp add: length_segs)
  with assms have j: "?j < length (tl ?S)" by simp
  have "assign 0 (tl ?S) ?ss ! (0 + ?j)
          = (?ss ! (0 + ?j))\<lparr>log_content := Some (str_join [newline] (tl ?S ! ?j))\<rparr>"
    using j lenS by (intro assign_inside) auto
  moreover have "tl ?S ! ?j = ?S ! Suc ?j" using j by (simp add: nth_tl)
  moreover have "?S ! Suc ?j = m # (if Suc ?j < length ?ss
               then takeWhile (\<lambda>l. \<not> is_marker l) post else post)"
    using segs_at_marker[OF assms(2,3), of "[]" post] assms(1) by simp
  ultimately have "log_content (assign 0 (tl ?S) ?ss ! ?j) = Some (str_join [newline]
         (m # (if Suc ?j < length ?ss then takeWhile (\<lambda>l. \<not> is_marker l) post else post)))"
    by simp
  with attach_logs_segs[of job logs] show ?thesis by blast
qed

text \<open>
  C10. Take any marker line \<open>m\<close> of the log, with \<open>pre\<close> the lines before it and
  \<open>post\<close> the lines after it, and let \<open>j\<close> be the number of markers in \<open>pre\<close>. While
  \<open>j\<close> is below the number of steps, the log content of step \<open>j\<close> begins with \<open>m\<close> itself
  and runs to the line before the next marker, so \<open>m\<close> is not in the segment of the step
  before; for the last step it runs to the end of the log. A marker met when every step has
  been started lies inside the content of the last step, after that step's own marker, as
  any other line does.
\<close>

theorem marker_starts_own_segment:
  assumes "log_lines logs = pre @ m # post" and "is_marker m"
  shows "\<exists>ss'. attach_logs_to_steps job logs = Inr (job\<lparr>steps := ss'\<rparr>) \<and>
     (length (filter is_marker pre) < length (steps job) \<longrightarrow>
        log_content (ss' ! length (filter is_marker pre)) =
          Some (str_join [newline]
            (m # (if Suc (length (filter is_marker pre)) < length (steps job)
                  then takeWhile (\<lambda>l. \<not> is_marker l) post else post)))) \<and>
     (length (steps job) \<le> length (filter is_marker pre) \<longrightarrow> steps job \<noteq> [] \<longrightarrow>
        (\<exists>pre0 m0 mid. pre = pre0 @ m0 # mid \<and> is_marker m0 \<and>
           log_content (ss' ! (length (steps job) - 1)) =
             Some (str_join [newline] (m0 # mid @ m # post))))"
proof -
  let ?ss = "steps job"
  let ?j = "length (filter is_marker pre)"
  obtain ss' where run: "attach_logs_to_steps job logs = Inr (job\<lparr>steps := ss'\<rparr>)"
    using attach_logs_segs by blast
  have unique: "\<And>ss''. attach_logs_to_steps job logs = Inr (job\<lparr>steps := ss''\<rparr>) \<Longrightarrow> ss'' = ss'"
  proof -
    fix ss'' assume "attach_logs_to_steps job logs = Inr (job\<lparr>steps := ss''\<rparr>)"
    with run have "job\<lparr>steps := ss''\<rparr> = job\<lparr>steps := ss'\<rparr>" by simp
    then have "steps (job\<lparr>steps := ss''\<rparr>) = steps (job\<lparr>steps := ss'\<rparr>)" by simp
    then show "ss'' = ss'" by simp
  qed
  have first: "?j < length ?ss \<longrightarrow>
        log_content (ss' ! ?j) =
          Some (str_join [newline]
            (m # (if Suc ?j < length ?ss then takeWhile (\<lambda>l. \<not> is_marker l) post else post)))"
  proof
    assume "?j < length ?ss"
    from attach_logs_at_marker[OF assms this] unique show
      "log_content (ss' ! ?j) =
          Some (str_join [newline]
            (m # (if Suc ?j < length ?ss then takeWhile (\<lambda>l. \<not> is_marker l) post else post)))"
      by blast
  qed
  have second: "length ?ss \<le> ?j \<longrightarrow> ?ss \<noteq> [] \<longrightarrow>
        (\<exists>pre0 m0 mid. pre = pre0 @ m0 # mid \<and> is_marker m0 \<and>
           log_content (ss' ! (length ?ss - 1)) = Some (str_join [newline] (m0 # mid @ m # post)))"
  proof (intro impI)
    assume le: "length ?ss \<le> ?j" and ne: "?ss \<noteq> []"
    then have pos: "0 < length ?ss" by simp
    from split_at_nth_marker[OF le pos] obtain pre0 m0 mid where
      d: "pre = pre0 @ m0 # mid" "is_marker m0" "length (filter is_marker pre0) = length ?ss - 1"
      by blast
    have l: "log_lines logs = pre0 @ m0 # (mid @ m # post)" using assms(1) d(1) by simp
    have lt: "length (filter is_marker pre0) < length ?ss" using d(3) pos by simp
    from attach_logs_at_marker[OF l d(2) lt] unique d(3) pos
    have "log_content (ss' ! (length ?ss - 1)) = Some (str_join [newline] (m0 # mid @ m # post))"
      by auto
    with d show "\<exists>pre0 m0 mid. pre = pre0 @ m0 # mid \<and> is_marker m0 \<and>
           log_content (ss' ! (length ?ss - 1)) = Some (str_join [newline] (m0 # mid @ m # post))"
      by blast
  qed
  from run first second show ?thesis by blast
qed

lemma example_log_lines:
  "log_lines example_log = [''pre'', ''##[group]a'', ''l1'', ''##[group]b'', ''l2'', ''##[group]c'', ''l3'']"
  by (simp add: log_lines_def example_log_def newline_def)

lemma is_marker_examples:
  "\<not> is_marker ''pre''" "is_marker ''##[group]a''" "\<not> is_marker ''l1''" "is_marker ''##[group]b''"
  "\<not> is_marker ''l2''" "is_marker ''##[group]c''" "\<not> is_marker ''l3''" "\<not> is_marker ''plain''"
  by (simp_all add: is_marker_def)

theorem attach_logs_segments_witness:
  "marker_count ''plain\<newline>text'' = 0
   \<and> attach_logs_to_steps example_job ''plain\<newline>text'' = Inr example_job
   \<and> marker_count example_log = 3
   \<and> (\<exists>segments ss'.
        attach_logs_to_steps example_job example_log = Inr (example_job\<lparr>steps := ss'\<rparr>) \<and>
        length segments = 2 \<and>
        concat segments = [''##[group]a'', ''l1'', ''##[group]b'', ''l2'', ''##[group]c'', ''l3''] \<and>
        length ss' = 2 \<and>
        (\<forall>j < 2. ss' ! j =
           (steps example_job ! j)\<lparr>log_content := Some (str_join [newline] (segments ! j))\<rparr>))"
proof -
  have z: "marker_count ''plain\<newline>text'' = 0"
    by (simp add: marker_count_def log_lines_def newline_def is_marker_def)
  have t: "marker_count example_log = 3"
    by (simp add: marker_count_def example_log_lines is_marker_examples)
  have l: "length (steps example_job) = 2" by (simp add: example_job_def)
  from attach_logs_segments[of "''plain\<newline>text''" example_job] z
  have a: "attach_logs_to_steps example_job ''plain\<newline>text'' = Inr example_job" by blast
  from attach_logs_segments[of example_log example_job]
  obtain segments ss' where
    "attach_logs_to_steps example_job example_log = Inr (example_job\<lparr>steps := ss'\<rparr>)"
    "length segments = min (marker_count example_log) (length (steps example_job))"
    "0 < length segments \<longrightarrow>
       concat segments = dropWhile (\<lambda>l. \<not> is_marker l) (log_lines example_log)"
    "length ss' = length (steps example_job)"
    "\<forall>j < length segments.
       ss' ! j = (steps example_job ! j)\<lparr>log_content := Some (str_join [newline] (segments ! j))\<rparr>"
    by blast
  then have "attach_logs_to_steps example_job example_log = Inr (example_job\<lparr>steps := ss'\<rparr>) \<and>
        length segments = 2 \<and>
        concat segments = [''##[group]a'', ''l1'', ''##[group]b'', ''l2'', ''##[group]c'', ''l3''] \<and>
        length ss' = 2 \<and>
        (\<forall>j < 2. ss' ! j =
           (steps example_job ! j)\<lparr>log_content := Some (str_join [newline] (segments ! j))\<rparr>)"
    by (simp add: t l example_log_lines is_marker_examples)
  then have "\<exists>segments ss'.
        attach_logs_to_steps example_job example_log = Inr (example_job\<lparr>steps := ss'\<rparr>) \<and>
        length segments = 2 \<and>
        concat segments = [''##[group]a'', ''l1'', ''##[group]b'', ''l2'', ''##[group]c'', ''l3''] \<and>
        length ss' = 2 \<and>
        (\<forall>j < 2. ss' ! j =
           (steps example_job ! j)\<lparr>log_content := Some (str_join [newline] (segments ! j))\<rparr>)"
    by blast
  with z a t show ?thesis by blast
qed

theorem marker_starts_own_segment_witness:
  "log_lines example_log = [''pre''] @ ''##[group]a'' # [''l1'', ''##[group]b'', ''l2'', ''##[group]c'', ''l3'']
   \<and> is_marker ''##[group]a''
   \<and> log_lines example_log = [''pre'', ''##[group]a'', ''l1''] @ ''##[group]b'' # [''l2'', ''##[group]c'', ''l3'']
   \<and> is_marker ''##[group]b''
   \<and> log_lines example_log = [''pre'', ''##[group]a'', ''l1'', ''##[group]b'', ''l2''] @ ''##[group]c'' # [''l3'']
   \<and> is_marker ''##[group]c''
   \<and> (\<exists>ss'. attach_logs_to_steps example_job example_log = Inr (example_job\<lparr>steps := ss'\<rparr>)
        \<and> log_content (ss' ! 0) = Some ''##[group]a\<newline>l1''
        \<and> log_content (ss' ! 1) = Some ''##[group]b\<newline>l2\<newline>##[group]c\<newline>l3''
        \<and> (\<exists>pre0 m0 mid.
              [''pre'', ''##[group]a'', ''l1'', ''##[group]b'', ''l2''] = pre0 @ m0 # mid \<and>
              log_content (ss' ! 1) =
                Some (str_join [newline] (m0 # mid @ ''##[group]c'' # [''l3'']))))"
proof -
  have d1: "log_lines example_log = [''pre''] @ ''##[group]a'' # [''l1'', ''##[group]b'', ''l2'', ''##[group]c'', ''l3'']"
    and d2: "log_lines example_log = [''pre'', ''##[group]a'', ''l1''] @ ''##[group]b'' # [''l2'', ''##[group]c'', ''l3'']"
    and d3: "log_lines example_log = [''pre'', ''##[group]a'', ''l1'', ''##[group]b'', ''l2''] @ ''##[group]c'' # [''l3'']"
    by (simp_all add: example_log_lines)
  have l: "length (steps example_job) = 2" "steps example_job \<noteq> []" by (simp_all add: example_job_def)
  from marker_starts_own_segment[OF d1 is_marker_examples(2), of example_job]
  obtain ss1 where r1: "attach_logs_to_steps example_job example_log = Inr (example_job\<lparr>steps := ss1\<rparr>)"
    and c1: "log_content (ss1 ! 0) = Some ''##[group]a\<newline>l1''"
    by (auto simp: l is_marker_examples newline_def)
  from marker_starts_own_segment[OF d2 is_marker_examples(4), of example_job]
  obtain ss2 where r2: "attach_logs_to_steps example_job example_log = Inr (example_job\<lparr>steps := ss2\<rparr>)"
    and c2: "log_content (ss2 ! 1) = Some ''##[group]b\<newline>l2\<newline>##[group]c\<newline>l3''"
    by (auto simp: l is_marker_examples newline_def)
  from marker_starts_own_segment[OF d3 is_marker_examples(6), of example_job]
  obtain ss3 pre0 m0 mid where r3: "attach_logs_to_steps example_job example_log = Inr (example_job\<lparr>steps := ss3\<rparr>)"
    and c3: "[''pre'', ''##[group]a'', ''l1'', ''##[group]b'', ''l2''] = pre0 @ m0 # mid"
       "log_content (ss3 ! 1) = Some (str_join [newline] (m0 # mid @ ''##[group]c'' # [''l3'']))"
    by (auto simp: l is_marker_examples)
  from r1 r2 have "steps (example_job\<lparr>steps := ss1\<rparr>) = steps (example_job\<lparr>steps := ss2\<rparr>)" by simp
  then have e2: "ss2 = ss1" by simp
  from r1 r3 have "steps (example_job\<lparr>steps := ss1\<rparr>) = steps (example_job\<lparr>steps := ss3\<rparr>)" by simp
  then have e3: "ss3 = ss1" by simp
  from c3 e3 have "\<exists>pre0 m0 mid.
      [''pre'', ''##[group]a'', ''l1'', ''##[group]b'', ''l2''] = pre0 @ m0 # mid \<and>
      log_content (ss1 ! 1) = Some (str_join [newline] (m0 # mid @ ''##[group]c'' # [''l3'']))"
    by blast
  with r1 c1 c2 e2 d1 d2 d3 is_marker_examples show ?thesis by blast
qed

section \<open>The matcher: the span of a group\<close>

lemma try_down_Some:
  "try_down f n = Some r \<Longrightarrow> \<exists>j. 1 \<le> j \<and> j \<le> n \<and> f j = Some r"
proof (induction n)
  case 0
  then show ?case by simp
next
  case (Suc n)
  show ?case
  proof (cases "f (Suc n)")
    case None
    with Suc obtain j where "1 \<le> j" "j \<le> n" "f j = Some r" by auto
    then show ?thesis by (intro exI[of _ j]) simp
  next
    case (Some a)
    with Suc.prems have "f (Suc n) = Some r" by simp
    then show ?thesis by (intro exI[of _ "Suc n"]) simp
  qed
qed

lemma match_items_bounds:
  "match_items ic p s pos sp = Some (e, sp') \<Longrightarrow> pos \<le> e \<and> e \<le> pos + length s"
proof (induction p arbitrary: s pos sp)
  case Nil
  then show ?case by simp
next
  case (Cons it r)
  show ?case
  proof (cases it)
    case (Lit c)
    with Cons.prems obtain x xs where s: "s = x # xs"
      and m: "match_items ic r xs (Suc pos) sp = Some (e, sp')"
      by (auto split: list.splits if_splits)
    from Cons.IH[OF m] s show ?thesis by simp
  next
    case (Many k)
    with Cons.prems have
      "try_down (\<lambda>j. match_items ic r (drop j s) (pos + j) sp)
         (length (takeWhile (in_cls k) s)) = Some (e, sp')" by simp
    from try_down_Some[OF this] obtain j where j: "1 \<le> j" "j \<le> length (takeWhile (in_cls k) s)"
      and m: "match_items ic r (drop j s) (pos + j) sp = Some (e, sp')"
      by blast
    have "length (takeWhile (in_cls k) s) \<le> length s" by (rule length_takeWhile_le)
    with Cons.IH[OF m] j show ?thesis by simp
  next
    case (Open g)
    with Cons.prems Cons.IH show ?thesis by simp
  next
    case (Close g)
    with Cons.prems Cons.IH show ?thesis by simp
  qed
qed

lemma map_of_close_span_other:
  "h \<noteq> g \<Longrightarrow> map_of (close_span h pos sp) g = map_of sp g"
  by (induction sp) (auto simp: close_span_def)

lemma match_items_keeps:
  "match_items ic p s pos sp = Some (e, sp') \<Longrightarrow> g \<notin> \<Union> (item_names ` set p) \<Longrightarrow>
   map_of sp' g = map_of sp g"
proof (induction p arbitrary: s pos sp)
  case Nil
  then show ?case by simp
next
  case (Cons it r)
  show ?case
  proof (cases it)
    case (Lit c)
    with Cons.prems obtain x xs where
      m: "match_items ic r xs (Suc pos) sp = Some (e, sp')"
      by (auto split: list.splits if_splits)
    from Cons.IH[OF m] Cons.prems(2) show ?thesis by simp
  next
    case (Many k)
    with Cons.prems have
      "try_down (\<lambda>j. match_items ic r (drop j s) (pos + j) sp)
         (length (takeWhile (in_cls k) s)) = Some (e, sp')" by simp
    from try_down_Some[OF this] obtain j where
      m: "match_items ic r (drop j s) (pos + j) sp = Some (e, sp')"
      by blast
    from Cons.IH[OF m] Cons.prems(2) show ?thesis by simp
  next
    case (Open h)
    with Cons.prems have m: "match_items ic r s pos ((h, pos, pos) # sp) = Some (e, sp')"
      and "h \<noteq> g" by auto
    from Cons.IH[OF m] Cons.prems(2) \<open>h \<noteq> g\<close> show ?thesis by simp
  next
    case (Close h)
    with Cons.prems have m: "match_items ic r s pos (close_span h pos sp) = Some (e, sp')"
      and "h \<noteq> g" by auto
    from Cons.IH[OF m] Cons.prems(2) \<open>h \<noteq> g\<close> show ?thesis
      by (simp add: map_of_close_span_other)
  qed
qed

lemma group_span:
  "match_items ic (pre @ Open g # Many k # Close g # post) s pos sp = Some (e, sp') \<Longrightarrow>
   g \<notin> \<Union> (item_names ` set post) \<Longrightarrow>
   \<exists>a b. map_of sp' g = Some (a, b) \<and> pos \<le> a \<and> a < b \<and> b \<le> e"
proof (induction pre arbitrary: s pos sp)
  case Nil
  from Nil.prems(1) have
    "try_down (\<lambda>j. match_items ic (Close g # post) (drop j s) (pos + j) ((g, pos, pos) # sp))
       (length (takeWhile (in_cls k) s)) = Some (e, sp')" by simp
  from try_down_Some[OF this] obtain j where j: "1 \<le> j"
    and "match_items ic (Close g # post) (drop j s) (pos + j) ((g, pos, pos) # sp) = Some (e, sp')"
    by blast
  then have m: "match_items ic post (drop j s) (pos + j) (close_span g (pos + j) ((g, pos, pos) # sp))
              = Some (e, sp')" by simp
  have "map_of sp' g = map_of (close_span g (pos + j) ((g, pos, pos) # sp)) g"
    by (rule match_items_keeps[OF m Nil.prems(2)])
  then have "map_of sp' g = Some (pos, pos + j)" by (simp add: close_span_def)
  moreover have "pos + j \<le> e" using match_items_bounds[OF m] by simp
  ultimately show ?case using j by simp
next
  case (Cons it r)
  show ?case
  proof (cases it)
    case (Lit c)
    with Cons.prems(1) obtain x xs where
      m: "match_items ic (r @ Open g # Many k # Close g # post) xs (Suc pos) sp = Some (e, sp')"
      by (auto split: list.splits if_splits)
    from Cons.IH[OF m Cons.prems(2)] show ?thesis by auto
  next
    case (Many k')
    with Cons.prems(1) have
      "try_down (\<lambda>j. match_items ic (r @ Open g # Many k # Close g # post) (drop j s) (pos + j) sp)
         (length (takeWhile (in_cls k') s)) = Some (e, sp')" by simp
    from try_down_Some[OF this] obtain j where
      m: "match_items ic (r @ Open g # Many k # Close g # post) (drop j s) (pos + j) sp = Some (e, sp')"
      by blast
    from Cons.IH[OF m Cons.prems(2)] show ?thesis by auto
  next
    case (Open h)
    with Cons.prems(1) have
      m: "match_items ic (r @ Open g # Many k # Close g # post) s pos ((h, pos, pos) # sp) = Some (e, sp')"
      by simp
    from Cons.IH[OF m Cons.prems(2)] show ?thesis by auto
  next
    case (Close h)
    with Cons.prems(1) have
      m: "match_items ic (r @ Open g # Many k # Close g # post) s pos (close_span h pos sp) = Some (e, sp')"
      by simp
    from Cons.IH[OF m Cons.prems(2)] show ?thesis by auto
  qed
qed

lemma group_nonempty:
  assumes "re_match ic (pre @ Open g # Many k # Close g # post) s = Some m"
    and "g \<notin> \<Union> (item_names ` set post)"
  shows "group m g \<noteq> []"
proof -
  from assms(1) obtain e sp' where
    mi: "match_items ic (pre @ Open g # Many k # Close g # post) s 0 [] = Some (e, sp')"
    and m: "m = \<lparr>group0 = take e s, groups = map (\<lambda>(g, a, b). (g, py_slice s a b)) sp'\<rparr>"
    by (auto simp: re_match_def)
  from group_span[OF mi assms(2)] obtain a b where
    ab: "map_of sp' g = Some (a, b)" "a < b" "b \<le> e" by blast
  have "e \<le> length s" using match_items_bounds[OF mi] by simp
  have "map_of (map (\<lambda>(g, a, b). (g, py_slice s a b)) sp') g
          = map_option (\<lambda>(a, b). py_slice s a b) (map_of sp' g)"
    by (induction sp') auto
  with ab m have "group m g = py_slice s a b" by (simp add: group_def)
  moreover have "length (py_slice s a b) = b - a"
    using ab \<open>e \<le> length s\<close> by (simp add: py_slice_def)
  ultimately show ?thesis using ab by auto
qed

lemma stack_match_in:
  "stack_match ps line = Some m \<Longrightarrow> \<exists>p \<in> set ps. re_match False p line = Some m"
  by (induction ps) (auto split: option.splits)

lemma stack_pattern_shape:
  "p \<in> set STACK_TRACE_PATTERNS \<Longrightarrow>
   \<exists>pre k post. p = pre @ Open ''file'' # Many k # Close ''file'' # post
      \<and> ''file'' \<notin> \<Union> (item_names ` set post)"
proof -
  assume "p \<in> set STACK_TRACE_PATTERNS"
  then consider
      "p = ([Many Space] @ lit ''File '' @ [Lit dquote]) @ Open ''file'' # Many Dot # Close ''file''
             # ([Lit dquote] @ lit '', line '' @ grp ''line'' [Many Digit])"
    | "p = ([Many Space] @ lit ''at '' @ [Many Dot] @ lit '' ('') @ Open ''file'' # Many Dot # Close ''file''
             # (lit '':'' @ grp ''line'' [Many Digit])"
    | "p = [Many Space] @ Open ''file'' # Many PathChar # Close ''file''
             # (lit '':'' @ grp ''line'' [Many Digit])"
    by (auto simp: STACK_TRACE_PATTERNS_def grp_def)
  then show ?thesis
  proof cases
    case 1
    have "''file'' \<notin> \<Union> (item_names ` set ([Lit dquote] @ lit '', line '' @ grp ''line'' [Many Digit]))"
      by (simp add: grp_def lit_def)
    with 1 show ?thesis by blast
  next
    case 2
    have "''file'' \<notin> \<Union> (item_names ` set (lit '':'' @ grp ''line'' [Many Digit]))"
      by (simp add: grp_def lit_def)
    with 2 show ?thesis by blast
  next
    case 3
    have "''file'' \<notin> \<Union> (item_names ` set (lit '':'' @ grp ''line'' [Many Digit]))"
      by (simp add: grp_def lit_def)
    with 3 show ?thesis by blast
  qed
qed

lemma stack_match_file_nonempty:
  assumes "stack_match STACK_TRACE_PATTERNS line = Some m"
  shows "group m ''file'' \<noteq> []"
proof -
  from stack_match_in[OF assms] obtain p where
    p: "p \<in> set STACK_TRACE_PATTERNS" "re_match False p line = Some m" by blast
  from stack_pattern_shape[OF p(1)] obtain pre k post where
    "p = pre @ Open ''file'' # Many k # Close ''file'' # post"
    "''file'' \<notin> \<Union> (item_names ` set post)" by blast
  with p(2) group_nonempty show ?thesis by blast
qed

section \<open>The look-ahead and the context window\<close>

lemma scanned_Nil: "scanned [] = []"
  by (simp add: scanned_def)

lemma scanned_Cons: "scanned (l # ls) = l # (if stops l then [] else scanned ls)"
  by (simp add: scanned_def)



lemma frame_location_file: "frame_location line = Some (f, n) \<Longrightarrow> f \<noteq> []"
  using stack_match_file_nonempty by (auto simp: frame_location_def)

lemma lines_in_range_take_drop:
  "hi \<le> length xs \<Longrightarrow> lines_in_range xs lo hi = take (hi - lo) (drop lo xs)"
  by (rule nth_equalityI) (auto simp: lines_in_range_def)

lemma lookahead_window_take: "lookahead_window lines i = take 19 (drop (Suc i) lines)"
proof -
  have "lookahead_window lines i
          = take (min (i + 20) (length lines) - (i + 1)) (drop (i + 1) lines)"
    by (simp add: lookahead_window_def lines_in_range_take_drop)
  also have "\<dots> = take 19 (drop (Suc i) lines)"
    by (cases "i + 20 \<le> length lines") (simp_all add: min_def)
  finally show ?thesis .
qed

text \<open>What the look-ahead loop returns, from any state.\<close>

lemma lookahead_result:
  "lookahead w (fp, lno, trace) =
     (case filter is_frame (scanned w) of
        [] \<Rightarrow> (fp, lno, trace)
      | f # fs \<Rightarrow>
          (if truthy fp then fp else map_option fst (frame_location f),
           if truthy fp then lno else map_option snd (frame_location f),
           trace @ map str_strip (f # fs)))"
proof (induction w arbitrary: fp lno trace)
  case Nil
  then show ?case by (simp add: scanned_Nil)
next
  case (Cons l ls)
  show ?case
  proof (cases "stack_match STACK_TRACE_PATTERNS l")
    case None
    then have nf: "\<not> is_frame l" by (simp add: is_frame_def)
    show ?thesis
    proof (cases "stops l")
      case True
      with None nf show ?thesis by (simp add: scanned_Cons stops_def)
    next
      case False
      with None nf Cons.IH[of fp lno trace] show ?thesis by (simp add: scanned_Cons stops_def)
    qed
  next
    case (Some m)
    then have fr: "is_frame l" by (simp add: is_frame_def)
    from Some have loc: "frame_location l = Some (group m ''file'', int_of_digits (group m ''line''))"
      by (simp add: frame_location_def)
    have ne: "group m ''file'' \<noteq> []" by (rule stack_match_file_nonempty[OF Some])
    show ?thesis
    proof (cases "truthy fp")
      case True
      show ?thesis
      proof (cases "stops l")
        case True
        with Some fr \<open>truthy fp\<close> show ?thesis by (simp add: scanned_Cons stops_def)
      next
        case False
        with Some fr \<open>truthy fp\<close> Cons.IH[of fp lno "trace @ [str_strip l]"] show ?thesis
          by (simp add: scanned_Cons stops_def split: list.splits)
      qed
    next
      case False
      have t: "truthy (Some (group m ''file''))" using ne by (simp add: truthy_def)
      show ?thesis
      proof (cases "stops l")
        case True
        with Some fr loc \<open>\<not> truthy fp\<close> show ?thesis by (simp add: scanned_Cons stops_def)
      next
        case False
        with Some fr loc t \<open>\<not> truthy fp\<close>
          Cons.IH[of "Some (group m ''file'')" "Some (int_of_digits (group m ''line''))"
                     "trace @ [str_strip l]"]
        show ?thesis
          by (simp add: scanned_Cons stops_def split: list.splits)
      qed
    qed
  qed
qed

lemma extract_fields:
  "error_message (extract_error_context lines i m ty) = group0 m"
  "error_type (extract_error_context lines i m ty) = ty"
  "stack_trace (extract_error_context lines i m ty)
     = map str_strip (filter is_frame (scanned (lookahead_window lines i)))"
  "file_path (extract_error_context lines i m ty)
     = (case filter is_frame (scanned (lookahead_window lines i)) of
          [] \<Rightarrow> None | f # fs \<Rightarrow> map_option fst (frame_location f))"
  "line_number (extract_error_context lines i m ty)
     = (case filter is_frame (scanned (lookahead_window lines i)) of
          [] \<Rightarrow> None | f # fs \<Rightarrow> map_option snd (frame_location f))"
  "surrounding_context (extract_error_context lines i m ty)
     = filter (\<lambda>l. l \<noteq> [])
         (map str_strip (py_slice lines (i - 5) (min (length lines) (i + 10))))"
proof -
  have n: "nat (max 0 (int i - 5)) = i - 5" by simp
  show "error_message (extract_error_context lines i m ty) = group0 m"
    by (simp add: extract_error_context_def split: prod.splits)
  show "error_type (extract_error_context lines i m ty) = ty"
    by (simp add: extract_error_context_def split: prod.splits)
  show "stack_trace (extract_error_context lines i m ty)
     = map str_strip (filter is_frame (scanned (lookahead_window lines i)))"
    by (simp add: extract_error_context_def lookahead_result lookahead_window_def truthy_def
        split: prod.splits list.splits)
  show "file_path (extract_error_context lines i m ty)
     = (case filter is_frame (scanned (lookahead_window lines i)) of
          [] \<Rightarrow> None | f # fs \<Rightarrow> map_option fst (frame_location f))"
    by (simp add: extract_error_context_def lookahead_result lookahead_window_def truthy_def
        split: prod.splits list.splits)
  show "line_number (extract_error_context lines i m ty)
     = (case filter is_frame (scanned (lookahead_window lines i)) of
          [] \<Rightarrow> None | f # fs \<Rightarrow> map_option snd (frame_location f))"
    by (simp add: extract_error_context_def lookahead_result lookahead_window_def truthy_def
        split: prod.splits list.splits)
  show "surrounding_context (extract_error_context lines i m ty)
     = filter (\<lambda>l. l \<noteq> [])
         (map str_strip (py_slice lines (i - 5) (min (length lines) (i + 10))))"
    by (simp only: extract_error_context_def Let_def n split: prod.splits) simp
qed

lemma context_slice:
  assumes "i < length lines"
  shows "py_slice lines (i - 5) (min (length lines) (i + 10))
           = drop (i - 5) (take i lines) @ lines ! i # take 9 (drop (Suc i) lines)"
proof -
  let ?a = "take i lines" and ?b = "drop (Suc i) lines"
  have l: "lines = ?a @ lines ! i # ?b" using assms by (rule id_take_nth_drop)
  have la: "length ?a = i" using assms by simp
  have lb: "length ?b = length lines - Suc i" by simp
  have d: "drop (i - 5) (?a @ lines ! i # ?b) = drop (i - 5) ?a @ lines ! i # ?b"
    using la by simp
  have k: "min (length lines) (i + 10) - (i - 5) = length (drop (i - 5) ?a) + Suc (min 9 (length ?b))"
    using assms by (simp add: min_def) linarith
  have "py_slice lines (i - 5) (min (length lines) (i + 10))
          = take (length (drop (i - 5) ?a) + Suc (min 9 (length ?b))) (drop (i - 5) ?a @ lines ! i # ?b)"
    unfolding py_slice_def k using d l by metis
  also have "\<dots> = drop (i - 5) ?a @ lines ! i # take (min 9 (length ?b)) ?b"
    by (simp only: take_append) simp
  also have "take (min 9 (length ?b)) ?b = take 9 ?b" by (simp add: min_def)
  finally show ?thesis .
qed

section \<open>The scan of the lines\<close>

lemma try_patterns_find:
  "try_patterns ps lines i line =
     (case List.find (\<lambda>pt. re_search True (fst pt) line \<noteq> None) ps of
        None \<Rightarrow> None
      | Some (p, ty) \<Rightarrow> Some (extract_error_context lines i (the (re_search True p line)) ty))"
  by (induction ps) (auto split: option.splits)

lemma try_patterns_line_records:
  "(case try_patterns ERROR_PATTERNS lines i line of Some e \<Rightarrow> errors @ [e] | None \<Rightarrow> errors)
     = errors @ line_records lines i line"
  by (simp add: try_patterns_find line_records_def first_signature_def split: option.splits)

lemma parse_loop_concat:
  "parse_loop lines ps errors = errors @ concat (map (\<lambda>(i, line). line_records lines i line) ps)"
proof (induction ps arbitrary: errors)
  case Nil
  then show ?case by simp
next
  case (Cons a ps)
  obtain i line where a: "a = (i, line)" by (cases a)
  show ?case unfolding a by (simp only: parse_loop.simps try_patterns_line_records Cons.IH) simp
qed

lemma parse_step_logs_records:
  assumes "log_content step = Some text" and "text \<noteq> []"
    and "step_conclusion step = Some ''failure''"
  shows "parse_step_logs step =
           concat (map (\<lambda>(i, line). line_records (log_lines text) i line)
                     (enumerate 0 (log_lines text)))"
  using assms by (simp add: parse_step_logs_def log_lines_def parse_loop_concat Let_def)

lemma first_signature_index:
  assumes "first_signature line = Some (p, ty)"
  shows "\<exists>k < length ERROR_PATTERNS. ERROR_PATTERNS ! k = (p, ty)
           \<and> re_search True p line \<noteq> None
           \<and> (\<forall>j < k. re_search True (fst (ERROR_PATTERNS ! j)) line = None)"
proof -
  from assms obtain k where k: "k < length ERROR_PATTERNS"
    "re_search True (fst (ERROR_PATTERNS ! k)) line \<noteq> None"
    "(p, ty) = ERROR_PATTERNS ! k"
    "\<forall>j < k. \<not> re_search True (fst (ERROR_PATTERNS ! j)) line \<noteq> None"
    unfolding first_signature_def find_Some_iff by blast
  from k(3) have "fst (ERROR_PATTERNS ! k) = p" by (metis fst_conv)
  with k show ?thesis by (intro exI[of _ k]) simp
qed

lemma first_signature_upto:
  assumes "k < length ERROR_PATTERNS" and "re_search True (fst (ERROR_PATTERNS ! k)) line \<noteq> None"
  shows "\<exists>j \<le> k. first_signature line = Some (ERROR_PATTERNS ! j)"
proof -
  let ?M = "\<lambda>pt. re_search True (fst pt) line \<noteq> None"
  have "ERROR_PATTERNS ! k \<in> set ERROR_PATTERNS" using assms(1) by (rule nth_mem)
  from this assms(2) have "\<exists>x \<in> set ERROR_PATTERNS. ?M x" by (rule rev_bexI)
  then have ex: "\<exists>x. x \<in> set ERROR_PATTERNS \<and> ?M x" by blast
  have "List.find ?M ERROR_PATTERNS \<noteq> None"
  proof
    assume "List.find ?M ERROR_PATTERNS = None"
    then have "\<not> (\<exists>x. x \<in> set ERROR_PATTERNS \<and> ?M x)" by (rule iffD1[OF find_None_iff])
    from this ex show False by (rule notE)
  qed
  then obtain x where x: "List.find ?M ERROR_PATTERNS = Some x" by blast
  then obtain j where j: "j < length ERROR_PATTERNS" "x = ERROR_PATTERNS ! j"
    "\<forall>j' < j. \<not> ?M (ERROR_PATTERNS ! j')"
    unfolding find_Some_iff by blast
  have "j \<le> k"
  proof (rule ccontr)
    assume "\<not> j \<le> k"
    then have "k < j" by simp
    with j(3) have "\<not> ?M (ERROR_PATTERNS ! k)" by blast
    with assms(2) show False by blast
  qed
  with x j(2) show ?thesis unfolding first_signature_def by blast
qed

lemma signature_types:
  "snd (ERROR_PATTERNS ! 0) = ''python_error''"
  "j < 5 \<Longrightarrow> snd (ERROR_PATTERNS ! j) \<noteq> ''generic_error''"
proof -
  show "snd (ERROR_PATTERNS ! 0) = ''python_error''" by (simp add: ERROR_PATTERNS_def)
  assume "j < 5"
  then have "j = 0 \<or> j = 1 \<or> j = 2 \<or> j = 3 \<or> j = 4" by arith
  then show "snd (ERROR_PATTERNS ! j) \<noteq> ''generic_error''"
    by (elim disjE) (simp_all add: ERROR_PATTERNS_def)
qed

lemma line_records_length: "length (line_records lines i line) \<le> 1"
  by (simp add: line_records_def split: option.splits)

lemma line_records_None: "first_signature line = None \<Longrightarrow> line_records lines i line = []"
  by (simp add: line_records_def)

lemma line_records_Some:
  "first_signature line = Some (p, ty) \<Longrightarrow> map error_type (line_records lines i line) = [ty]"
  by (simp add: line_records_def extract_fields)

lemma specific_before_generic:
  assumes "k < 5" and "re_search True (fst (ERROR_PATTERNS ! k)) line \<noteq> None"
  shows "\<exists>p ty. first_signature line = Some (p, ty) \<and> ty \<noteq> ''generic_error''"
proof -
  have "k < length ERROR_PATTERNS" using assms(1) by (simp add: ERROR_PATTERNS_def)
  from first_signature_upto[OF this assms(2)] obtain j where j: "j \<le> k"
    "first_signature line = Some (ERROR_PATTERNS ! j)" by blast
  from j(1) assms(1) have "j < 5" by simp
  then have t: "snd (ERROR_PATTERNS ! j) \<noteq> ''generic_error''" by (rule signature_types(2))
  from j(2) have "first_signature line = Some (fst (ERROR_PATTERNS ! j), snd (ERROR_PATTERNS ! j))"
    by simp
  from this t show ?thesis by (intro exI conjI)
qed

lemma python_error_first:
  assumes "re_search True (fst (ERROR_PATTERNS ! 0)) line \<noteq> None"
  shows "\<exists>p. first_signature line = Some (p, ''python_error'')"
proof -
  have "0 < length ERROR_PATTERNS" by (simp add: ERROR_PATTERNS_def)
  from first_signature_upto[OF this assms] obtain j where j: "j \<le> 0"
    "first_signature line = Some (ERROR_PATTERNS ! j)" by blast
  from j have fs: "first_signature line = Some (ERROR_PATTERNS ! 0)" by simp
  have "\<exists>p. ERROR_PATTERNS ! 0 = (p, ''python_error'')"
    by (simp add: ERROR_PATTERNS_def)
  then obtain p where "ERROR_PATTERNS ! 0 = (p, ''python_error'')" ..
  with fs have "first_signature line = Some (p, ''python_error'')" by simp
  then show ?thesis by - (rule exI)
qed

section \<open>The sample buffers, evaluated\<close>

lemma ok_line: "\<not> stops ''ok''" "\<not> is_frame ''ok''"
  by (code_simp, code_simp)

lemma frame_line: "is_frame '' a.py:7''" "str_strip '' a.py:7'' = ''a.py:7''"
  by (code_simp, code_simp)

lemma types_step_facts:
  "re_search True (fst (ERROR_PATTERNS ! 0)) ''KeyError: k'' \<noteq> None"
  "re_search True (fst (ERROR_PATTERNS ! 5)) ''KeyError: k'' \<noteq> None"
  "map error_type (parse_step_logs types_step) = [''python_error'', ''build_error'']"
  by (code_simp, code_simp, code_simp)

lemma frames_log_facts:
  "is_frame '' a.py:12''" "\<not> stops '' a.py:12''"
  "is_frame '' b.py:7''" "\<not> stops '' b.py:7''"
  "\<not> is_frame []" "stops []"
  "str_strip '' a.py:12'' = ''a.py:12''"
  "str_strip '' b.py:7'' = ''b.py:7''"
  "frame_location '' a.py:12'' = Some (''a.py'', 12)"
  by (code_simp, code_simp, code_simp, code_simp, code_simp, code_simp, code_simp, code_simp, code_simp)

lemma frames_log_scanned:
  "filter is_frame (scanned (lookahead_window frames_log 0)) = ['' a.py:12'', '' b.py:7'']"
  by (simp add: lookahead_window_take frames_log_def scanned_Cons scanned_Nil frames_log_facts)

lemma context_log_strip:
  "map str_strip context_log = context_log"
  unfolding context_log_def by code_simp

lemma context_log_take: "take 15 context_log =
   [''l0'', ''l1'', ''l2'', ''l3'', ''l4'', ''KeyError: k'', ''l6'', ''l7'',
    ''l8'', ''l9'', ''l10'', ''l11'', ''l12'', ''l13'', ''l14'']"
  by (simp add: context_log_def)

lemma context_log_filtered:
  "filter (\<lambda>l. l \<noteq> []) (map str_strip (take 15 context_log)) = take 15 context_log"
proof -
  have "map str_strip (take 15 context_log) = take 15 (map str_strip context_log)"
    by (rule take_map[symmetric])
  also have "\<dots> = take 15 context_log" by (simp only: context_log_strip)
  finally have "map str_strip (take 15 context_log) = take 15 context_log" .
  then have "filter (\<lambda>l. l \<noteq> []) (map str_strip (take 15 context_log))
               = filter (\<lambda>l. l \<noteq> []) (take 15 context_log)" by (simp only:)
  also have "\<dots> = take 15 context_log" by (simp add: context_log_take)
  finally show ?thesis .
qed

section \<open>The error extractor\<close>

text \<open>
  C4. For a failed step with log text, the records are those of the lines, in line order, and
  a line gives at most one record. A line in which no signature is found gives none. A line
  gives the record of the first signature of \<open>ERROR_PATTERNS\<close> found in it: the signature at
  some index \<open>k\<close> of the table, with no signature at a lower index found in the line, and
  the record has the type of that signature. So a line in which one of the five signatures
  before the generic one is found is not classified as \<open>generic_error\<close>, whatever else
  is found in it, and a line in which the first signature (a named runtime error) is found is
  classified as \<open>python_error\<close>.
\<close>

theorem first_signature_wins:
  assumes "log_content step = Some text" and "text \<noteq> []"
    and "step_conclusion step = Some ''failure''"
  shows "parse_step_logs step =
           concat (map (\<lambda>(i, line). line_records (log_lines text) i line)
                     (enumerate 0 (log_lines text)))
     \<and> (\<forall>i line. length (line_records (log_lines text) i line) \<le> 1)
     \<and> (\<forall>i line. first_signature line = None \<longrightarrow> line_records (log_lines text) i line = [])
     \<and> (\<forall>i line p ty. first_signature line = Some (p, ty) \<longrightarrow>
           map error_type (line_records (log_lines text) i line) = [ty]
           \<and> (\<exists>k < length ERROR_PATTERNS. ERROR_PATTERNS ! k = (p, ty)
                 \<and> re_search True p line \<noteq> None
                 \<and> (\<forall>j < k. re_search True (fst (ERROR_PATTERNS ! j)) line = None)))
     \<and> (\<forall>line k. k < 5 \<and> re_search True (fst (ERROR_PATTERNS ! k)) line \<noteq> None \<longrightarrow>
           (\<exists>p ty. first_signature line = Some (p, ty) \<and> ty \<noteq> ''generic_error''))
     \<and> (\<forall>line. re_search True (fst (ERROR_PATTERNS ! 0)) line \<noteq> None \<longrightarrow>
           (\<exists>p. first_signature line = Some (p, ''python_error'')))"
proof (intro conjI allI impI)
  show "parse_step_logs step =
           concat (map (\<lambda>(i, line). line_records (log_lines text) i line)
                     (enumerate 0 (log_lines text)))"
    using assms by (rule parse_step_logs_records)
next
  fix i line
  show "length (line_records (log_lines text) i line) \<le> 1" by (rule line_records_length)
next
  fix i line
  assume "first_signature line = None"
  then show "line_records (log_lines text) i line = []" by (rule line_records_None)
next
  fix i line p ty
  assume "first_signature line = Some (p, ty)"
  then show "map error_type (line_records (log_lines text) i line) = [ty]"
    by (rule line_records_Some)
next
  fix i line p ty
  assume "first_signature line = Some (p, ty)"
  then show "\<exists>k < length ERROR_PATTERNS. ERROR_PATTERNS ! k = (p, ty)
                 \<and> re_search True p line \<noteq> None
                 \<and> (\<forall>j < k. re_search True (fst (ERROR_PATTERNS ! j)) line = None)"
    by (rule first_signature_index)
next
  fix line k
  assume "k < 5 \<and> re_search True (fst (ERROR_PATTERNS ! k)) line \<noteq> None"
  then have "k < 5" and "re_search True (fst (ERROR_PATTERNS ! k)) line \<noteq> None"
    by (rule conjunct1, rule conjunct2)
  then show "\<exists>p ty. first_signature line = Some (p, ty) \<and> ty \<noteq> ''generic_error''"
    by (rule specific_before_generic)
next
  fix line
  assume "re_search True (fst (ERROR_PATTERNS ! 0)) line \<noteq> None"
  then show "\<exists>p. first_signature line = Some (p, ''python_error'')"
    by (rule python_error_first)
qed

theorem first_signature_wins_witness:
  "log_content types_step = Some types_log \<and> types_log \<noteq> []
   \<and> step_conclusion types_step = Some ''failure''
   \<and> parse_step_logs types_step =
         concat (map (\<lambda>(i, line). line_records (log_lines types_log) i line)
                   (enumerate 0 (log_lines types_log)))
   \<and> re_search True (fst (ERROR_PATTERNS ! 0)) ''KeyError: k'' \<noteq> None
   \<and> re_search True (fst (ERROR_PATTERNS ! 5)) ''KeyError: k'' \<noteq> None
   \<and> (\<exists>p. first_signature ''KeyError: k'' = Some (p, ''python_error''))
   \<and> map error_type (parse_step_logs types_step) = [''python_error'', ''build_error'']"
proof -
  have h1: "log_content types_step = Some types_log" by (simp add: types_step_def)
  have h2: "types_log \<noteq> []" by (simp add: types_log_def)
  have h3: "step_conclusion types_step = Some ''failure''" by (simp add: types_step_def)
  note w = first_signature_wins[OF h1 h2 h3]
  from w have a: "parse_step_logs types_step =
         concat (map (\<lambda>(i, line). line_records (log_lines types_log) i line)
                   (enumerate 0 (log_lines types_log)))" by (rule conjunct1)
  have b: "\<exists>p. first_signature ''KeyError: k'' = Some (p, ''python_error'')"
    by (rule w[THEN conjunct2, THEN conjunct2, THEN conjunct2, THEN conjunct2, THEN conjunct2,
          THEN spec, THEN mp, OF types_step_facts(1)])
  show ?thesis
    by (intro conjI h1 h2 h3 a b types_step_facts)
qed

text \<open>
  C6, as the code has it. The range of the look-ahead is \<open>range(i + 1, min(i + 20, len(lines)))\<close>:
  the lines \<open>i + 1\<close> to \<open>i + 19\<close>, at most 19 of them, cut at the end of the buffer. The
  loop visits the lines of the range before the first blank line or line with an error
  signature, and that line too, which is tried as a stack frame before the loop ends; the
  stack trace is the stripped text of the visited lines that have the shape of a stack
  frame.
\<close>

theorem lookahead_scans_19_lines:
  "lookahead_window lines i = take 19 (drop (Suc i) lines)
   \<and> scanned (lookahead_window lines i) =
       takeWhile (\<lambda>l. \<not> (str_strip l = [] \<or> is_error_line l)) (take 19 (drop (Suc i) lines))
       @ take 1 (dropWhile (\<lambda>l. \<not> (str_strip l = [] \<or> is_error_line l))
                   (take 19 (drop (Suc i) lines)))
   \<and> stack_trace (extract_error_context lines i m ty) =
       map str_strip (filter is_frame (scanned (lookahead_window lines i)))"
  by (simp add: lookahead_window_take extract_fields scanned_def stops_def)

theorem lookahead_scans_19_lines_witness:
  "lookahead_window frames_log 0 = ['' a.py:12'', '' b.py:7'', [], '' c.py:5'']
   \<and> stack_trace (extract_error_context frames_log 0 sample_match ''python_error'')
       = [''a.py:12'', ''b.py:7'']"
proof -
  note w = lookahead_scans_19_lines[of frames_log 0 sample_match "''python_error''"]
  from w have "lookahead_window frames_log 0 = take 19 (drop (Suc 0) frames_log)"
    by (rule conjunct1)
  then have a: "lookahead_window frames_log 0 = ['' a.py:12'', '' b.py:7'', [], '' c.py:5'']"
    by (simp add: frames_log_def)
  have "stack_trace (extract_error_context frames_log 0 sample_match ''python_error'') =
       map str_strip (filter is_frame (scanned (lookahead_window frames_log 0)))"
    by (rule w[THEN conjunct2, THEN conjunct2])
  then have b: "stack_trace (extract_error_context frames_log 0 sample_match ''python_error'')
       = [''a.py:12'', ''b.py:7'']"
    by (simp add: frames_log_scanned frames_log_facts)
  from a b show ?thesis by (rule conjI)
qed

text \<open>
  The line at \<open>i + 20\<close> is not visited: in the sample buffer the nineteen lines after the
  match are plain text and line 20 is a stack frame; a look-ahead over twenty lines would
  collect it, and the record has no stack frame.
\<close>

theorem lookahead_20th_line_counterexample:
  "window_log ! 20 = '' a.py:7'' \<and> is_frame '' a.py:7''
   \<and> map str_strip (filter is_frame (scanned (take 20 (drop (Suc 0) window_log)))) = [''a.py:7'']
   \<and> stack_trace (extract_error_context window_log 0 sample_match ''python_error'') = []"
proof -
  have d: "drop (Suc 0) window_log = replicate 19 ''ok'' @ ['' a.py:7'']"
    by (simp add: window_log_def)
  have a: "window_log ! 20 = '' a.py:7''"
    by (simp add: window_log_def nth_append)
  have t19: "take 19 (drop (Suc 0) window_log) = replicate 19 ''ok''" by (simp add: d)
  have t20: "take 20 (drop (Suc 0) window_log) = replicate 19 ''ok'' @ ['' a.py:7'']"
    by (simp add: d)
  have c: "map str_strip (filter is_frame (scanned (take 20 (drop (Suc 0) window_log)))) = [''a.py:7'']"
    unfolding t20 scanned_def
    by (simp add: ok_line frame_line takeWhile_append dropWhile_append)
  have e: "stack_trace (extract_error_context window_log 0 sample_match ''python_error'') = []"
    unfolding extract_fields lookahead_window_take t19 scanned_def
    by (simp add: ok_line)
  show ?thesis by (intro conjI a frame_line(1) c e)
qed



text \<open>
  What the slice \<open>lines[max(0, i - 5) : min(len(lines), i + 10)]\<close> holds: up to five lines
  before the match, the matched line, and up to nine lines after it; each line is stripped
  and the blank ones are left out.
\<close>

lemma context_window:
  assumes "i < length lines"
  shows "surrounding_context (extract_error_context lines i m ty) =
     filter (\<lambda>l. l \<noteq> [])
       (map str_strip (drop (i - 5) (take i lines) @ lines ! i # take 9 (drop (Suc i) lines)))"
  using context_slice[OF assms] by (simp only: extract_fields)

text \<open>
  C8. The claim is a window of the five lines before the match and up to ten lines after
  it, stripped, without the blank lines; the comment in the code says five lines before and
  after. The slice ends at \<open>i + 10\<close>, the bound excluded, which is one line short of the
  claim: in the sample buffer of seventeen lines with the match at index 5, the window is
  the lines 0 to 14, and line 15, the tenth line after the match, is not in it.
\<close>

theorem context_window_tenth_line_missing:
  "context_log ! (5 + 10) = ''l15''
   \<and> ''l15'' \<notin> set (surrounding_context
                      (extract_error_context context_log 5 sample_match ''python_error''))
   \<and> surrounding_context (extract_error_context context_log 5 sample_match ''python_error'')
       = [''l0'', ''l1'', ''l2'', ''l3'', ''l4'', ''KeyError: k'', ''l6'', ''l7'',
          ''l8'', ''l9'', ''l10'', ''l11'', ''l12'', ''l13'', ''l14'']"
proof -
  have a: "context_log ! (5 + 10) = ''l15''" by (simp add: context_log_def)
  have sl: "py_slice context_log (5 - 5) (min (length context_log) (5 + 10)) = take 15 context_log"
    by (simp add: py_slice_def context_log_def)
  have "surrounding_context (extract_error_context context_log 5 sample_match ''python_error'')
          = filter (\<lambda>l. l \<noteq> []) (map str_strip (take 15 context_log))"
    by (simp only: extract_fields sl)
  then have c: "surrounding_context (extract_error_context context_log 5 sample_match ''python_error'')
       = [''l0'', ''l1'', ''l2'', ''l3'', ''l4'', ''KeyError: k'', ''l6'', ''l7'',
          ''l8'', ''l9'', ''l10'', ''l11'', ''l12'', ''l13'', ''l14'']"
    using context_log_filtered context_log_take by (rule trans[OF trans])
  have b: "''l15'' \<notin> set (surrounding_context
                      (extract_error_context context_log 5 sample_match ''python_error''))"
    unfolding c by simp
  show ?thesis by (intro conjI a b c)
qed

section \<open>The analyzer: helper facts\<close>

text \<open>
  The functions are modelled as they are written. (The module names \<open>Optional\<close> in an
  annotation without importing it, so where annotations are evaluated when a function is
  defined the class statement itself raises \<open>NameError\<close>; that is apart from what the
  functions compute.)
\<close>

lemma error_details_append:
  "error_details ps parts = parts @ concat (map (\<lambda>(i, e). error_part i e) ps)"
  by (induction ps arbitrary: parts) auto

lemma build_analysis_context_lines:
  "build_analysis_context wrun fj fs errors =
     str_join [newline]
       (context_head wrun fj fs @ concat (map (\<lambda>(i, e). error_part i e) (enumerate 1 (take 5 errors))))"
  by (simp add: build_analysis_context_def error_details_append)

lemma build_analysis_context_take:
  "build_analysis_context wrun fj fs errors = build_analysis_context wrun fj fs (take 5 errors)"
  by (simp add: build_analysis_context_def)

lemma collect_steps_result:
  "collect_steps jname ss (fsteps, all_errors) =
     (fsteps @ map (\<lambda>step. jname @ ''/'' @ step_name step)
                 (filter (\<lambda>step. step_conclusion step = Some ''failure'') ss),
      all_errors @ concat (map parse_step_logs
                 (filter (\<lambda>step. step_conclusion step = Some ''failure'') ss)))"
  by (induction ss arbitrary: fsteps all_errors) auto

lemma collect_jobs_errors:
  "snd (snd (collect_jobs js (fjobs, fsteps, all_errors))) =
     all_errors @ concat (map parse_step_logs
        (concat (map (\<lambda>job. filter (\<lambda>step. step_conclusion step = Some ''failure'') (steps job))
                   (filter (\<lambda>job. job_conclusion job = Some ''failure'') js))))"
  by (induction js arbitrary: fjobs fsteps all_errors) (auto simp: collect_steps_result)

lemma parse_body_error_contexts:
  "parse_body lib rid fj fs errors resp = Inr r \<Longrightarrow> error_contexts r = errors"
  by (auto simp: parse_body_def split: sum.splits json.splits)

lemma parse_llm_response_error_contexts:
  "parse_llm_response lib rid fj fs errors resp = Inr r \<Longrightarrow> error_contexts r = errors"
  by (auto simp: parse_llm_response_def fallback_def parse_body_error_contexts
      split: sum.splits if_splits)

lemma analyze_error_contexts:
  assumes "analyze_workflow_failure lib query_llm wrun = Inr r"
  shows "error_contexts r = extracted_errors wrun"
proof -
  obtain fj fs es where c: "collect_jobs (jobs wrun) ([], [], []) = (fj, fs, es)"
    by (cases "collect_jobs (jobs wrun) ([], [], [])") auto
  have "es = snd (snd (collect_jobs (jobs wrun) ([], [], [])))" by (simp add: c)
  then have es: "es = extracted_errors wrun"
    by (simp add: collect_jobs_errors extracted_errors_def failed_step_list_def)
  from assms c obtain resp where "parse_llm_response lib (run_id wrun) fj fs es resp = Inr r"
    by (auto simp: analyze_workflow_failure_def split: sum.splits)
  then have "error_contexts r = es" by (rule parse_llm_response_error_contexts)
  with es show ?thesis by simp
qed

lemma analyze_query:
  "\<exists>fj fs. analyze_workflow_failure lib query_llm wrun =
     (case query_llm (build_analysis_context wrun fj fs (take 5 (extracted_errors wrun))) of
        Inl e \<Rightarrow> Inl e
      | Inr resp \<Rightarrow> parse_llm_response lib (run_id wrun) fj fs (extracted_errors wrun) resp)"
proof -
  obtain fj fs es where c: "collect_jobs (jobs wrun) ([], [], []) = (fj, fs, es)"
    by (cases "collect_jobs (jobs wrun) ([], [], [])") auto
  have "es = snd (snd (collect_jobs (jobs wrun) ([], [], [])))" by (simp add: c)
  then have es: "es = extracted_errors wrun"
    by (simp add: collect_jobs_errors extracted_errors_def failed_step_list_def)
  have "analyze_workflow_failure lib query_llm wrun =
     (case query_llm (build_analysis_context wrun fj fs (take 5 (extracted_errors wrun))) of
        Inl e \<Rightarrow> Inl e
      | Inr resp \<Rightarrow> parse_llm_response lib (run_id wrun) fj fs (extracted_errors wrun) resp)"
    unfolding analyze_workflow_failure_def c es
    using build_analysis_context_take[of wrun fj fs "extracted_errors wrun"] by simp
  then show ?thesis by blast
qed

lemma clean_response_samples:
  "clean_response ''[]'' = ''[]''"
  "clean_response ''not json'' = ''not json''"
  "clean_response reply_five = reply_five"
  "clean_response reply_nine_tenths = reply_nine_tenths"
  unfolding reply_five_def reply_nine_tenths_def by (code_simp, code_simp, code_simp, code_simp)

lemma sample_loads_samples:
  "sample_loads ''[]'' = Inr (JArray [])"
  "sample_loads ''not json'' = Inl JSONDecodeError"
  "sample_loads reply_five = Inr (JObject [(''confidence'', JInt 5)])"
  "sample_loads reply_nine_tenths = Inr (JObject [(''confidence'', JFloat (9 / 10))])"
  by (simp_all add: sample_loads_def reply_five_def reply_nine_tenths_def dquote_def)

lemma parse_llm_response_fallback:
  assumes "json_loads lib (clean_response resp) = Inl JSONDecodeError"
  shows "parse_llm_response lib rid fj fs errors resp =
     Inr \<lparr>workflow_run_id = rid,
          summary = JString ''Failed to parse LLM response'',
          failed_jobs = fj,
          failed_steps = fs,
          error_contexts = errors,
          likely_cause = JString (take 500 resp),
          suggested_actions = JArray [JString ''Review logs manually''],
          confidence = 0\<rparr>"
  using assms by (simp add: parse_llm_response_def parse_body_def fallback_def)

lemma non_object_raises:
  assumes "json_loads lib (clean_response resp) = Inr v" and "\<forall>d. v \<noteq> JObject d"
  shows "parse_llm_response lib rid fj fs errors resp = Inl AttributeError"
  using assms by (cases v) (simp_all add: parse_llm_response_def parse_body_def)





lemma parse_sample_not_json:
  "parse_llm_response sample_lib rid fj fs errors ''not json'' = Inr (fallback rid fj fs errors ''not json'')"
  by (simp add: parse_llm_response_def parse_body_def sample_lib_def clean_response_samples
      sample_loads_samples)

section \<open>The context builder and the response interpreter\<close>

text \<open>
  C1. The claim is that a reply that cannot be parsed as the expected JSON shape never
  raises and gives the fallback result. The \<open>except\<close> clause names \<open>JSONDecodeError\<close> and
  \<open>KeyError\<close> only. For the reply \<open>[]\<close>, which \<open>json.loads\<close> decodes to the empty list,
  \<open>data.get\<close> raises \<open>AttributeError\<close>, which the clause does not catch: the function
  raises instead of returning the fallback. (A reply that \<open>json.loads\<close> rejects does give
  the fallback: \<open>parse_llm_response_fallback\<close>; a \<open>confidence\<close> that \<open>float\<close> rejects
  raises as well: \<open>bad_confidence_raises\<close>.)
\<close>

theorem parse_llm_response_array_raises:
  assumes "json_loads lib ''[]'' = Inr (JArray [])"
  shows "parse_llm_response lib rid fj fs errors ''[]'' = Inl AttributeError"
proof -
  have "json_loads lib (clean_response ''[]'') = Inr (JArray [])"
    using assms by (simp only: clean_response_samples)
  then show ?thesis by (rule non_object_raises) simp
qed

theorem parse_llm_response_array_raises_witness:
  "json_loads sample_lib ''[]'' = Inr (JArray [])
   \<and> parse_llm_response sample_lib 1 [''build''] [''build/test''] [] ''[]'' = Inl AttributeError"
proof -
  have h: "json_loads sample_lib ''[]'' = Inr (JArray [])"
    by (simp add: sample_lib_def sample_loads_samples)
  from h parse_llm_response_array_raises[OF h] show ?thesis by (rule conjI)
qed




text \<open>
  C3. The document is made of the head lines and of the parts of the first five errors,
  numbered from 1 in the order of the list, so it is the document of the first five errors
  alone. Every result of \<open>_parse_llm_response\<close>, on both paths, carries the whole list of
  errors it was given; and \<open>analyze_workflow_failure\<close> gives the context builder and the
  response interpreter the same list, the errors extracted from the failed steps, so its
  result carries them all while the document sent has the first five.
\<close>

theorem context_capped_result_full:
  "build_analysis_context wrun fj fs errors =
     str_join [newline]
       (context_head wrun fj fs
        @ concat (map (\<lambda>(i, e). error_part i e) (enumerate 1 (take 5 errors))))
   \<and> length (enumerate 1 (take 5 errors)) \<le> 5
   \<and> build_analysis_context wrun fj fs errors = build_analysis_context wrun fj fs (take 5 errors)
   \<and> (\<forall>r. parse_llm_response lib rid fj fs errors resp = Inr r \<longrightarrow> error_contexts r = errors)
   \<and> (\<forall>r. analyze_workflow_failure lib query_llm wrun = Inr r \<longrightarrow>
          error_contexts r = extracted_errors wrun)
   \<and> (\<exists>fj' fs'. analyze_workflow_failure lib query_llm wrun =
          (case query_llm (build_analysis_context wrun fj' fs' (take 5 (extracted_errors wrun))) of
             Inl e \<Rightarrow> Inl e
           | Inr resp' \<Rightarrow>
               parse_llm_response lib (run_id wrun) fj' fs' (extracted_errors wrun) resp'))"
proof (intro conjI allI impI)
  show "build_analysis_context wrun fj fs errors =
     str_join [newline]
       (context_head wrun fj fs
        @ concat (map (\<lambda>(i, e). error_part i e) (enumerate 1 (take 5 errors))))"
    by (rule build_analysis_context_lines)
  show "length (enumerate 1 (take 5 errors)) \<le> 5" by simp
  show "build_analysis_context wrun fj fs errors = build_analysis_context wrun fj fs (take 5 errors)"
    by (rule build_analysis_context_take)
  show "error_contexts r = errors" if "parse_llm_response lib rid fj fs errors resp = Inr r" for r
    using that by (rule parse_llm_response_error_contexts)
  show "error_contexts r = extracted_errors wrun"
    if "analyze_workflow_failure lib query_llm wrun = Inr r" for r
    using that by (rule analyze_error_contexts)
  show "\<exists>fj' fs'. analyze_workflow_failure lib query_llm wrun =
          (case query_llm (build_analysis_context wrun fj' fs' (take 5 (extracted_errors wrun))) of
             Inl e \<Rightarrow> Inl e
           | Inr resp' \<Rightarrow>
               parse_llm_response lib (run_id wrun) fj' fs' (extracted_errors wrun) resp')"
    by (rule analyze_query)
qed

theorem context_capped_result_full_witness:
  "length sample_errors = 6
   \<and> build_analysis_context sample_run [''build''] [''build/test''] sample_errors
       = build_analysis_context sample_run [''build''] [''build/test''] (take 5 sample_errors)
   \<and> parse_llm_response sample_lib 1 [''build''] [''build/test''] sample_errors ''not json''
       = Inr (fallback 1 [''build''] [''build/test''] sample_errors ''not json'')
   \<and> error_contexts (fallback 1 [''build''] [''build/test''] sample_errors ''not json'') = sample_errors
   \<and> (\<exists>r. analyze_workflow_failure sample_lib (\<lambda>doc. Inr ''not json'') sample_run = Inr r
          \<and> error_contexts r = extracted_errors sample_run)"
proof -
  note w = context_capped_result_full[of sample_run "[''build'']" "[''build/test'']" sample_errors
      sample_lib 1 "''not json''" "\<lambda>doc. Inr ''not json''"]
  have a: "length sample_errors = 6" by (simp add: sample_errors_def)
  have b: "build_analysis_context sample_run [''build''] [''build/test''] sample_errors
       = build_analysis_context sample_run [''build''] [''build/test''] (take 5 sample_errors)"
    by (rule w[THEN conjunct2, THEN conjunct2, THEN conjunct1])
  have c: "parse_llm_response sample_lib 1 [''build''] [''build/test''] sample_errors ''not json''
       = Inr (fallback 1 [''build''] [''build/test''] sample_errors ''not json'')"
    by (rule parse_sample_not_json)
  have d: "error_contexts (fallback 1 [''build''] [''build/test''] sample_errors ''not json'') = sample_errors"
    by (rule w[THEN conjunct2, THEN conjunct2, THEN conjunct2, THEN conjunct1, THEN spec, THEN mp, OF c])
  from w[THEN conjunct2, THEN conjunct2, THEN conjunct2, THEN conjunct2, THEN conjunct2]
  obtain fj' fs' where "analyze_workflow_failure sample_lib (\<lambda>doc. Inr ''not json'') sample_run =
      parse_llm_response sample_lib (run_id sample_run) fj' fs' (extracted_errors sample_run) ''not json''"
    by auto
  then have r: "analyze_workflow_failure sample_lib (\<lambda>doc. Inr ''not json'') sample_run =
      Inr (fallback (run_id sample_run) fj' fs' (extracted_errors sample_run) ''not json'')"
    by (simp only: parse_sample_not_json)
  have "error_contexts (fallback (run_id sample_run) fj' fs' (extracted_errors sample_run) ''not json'')
          = extracted_errors sample_run"
    by (rule w[THEN conjunct2, THEN conjunct2, THEN conjunct2, THEN conjunct2, THEN conjunct1,
          THEN spec, THEN mp, OF r])
  with r have e: "\<exists>r. analyze_workflow_failure sample_lib (\<lambda>doc. Inr ''not json'') sample_run = Inr r
          \<and> error_contexts r = extracted_errors sample_run"
    by (intro exI conjI)
  show ?thesis by (intro conjI a b c d e)
qed

end
